(* ===== verification/Prelude.thy ===== *)
theory Prelude
  imports Main "HOL-Library.Word" "HOL-Library.Sublist"
begin

text \<open>
  Shared ground of the development: the machine-integer types of the code, the
  collections of facts the component theories add to and draw on, and the lemmas on
  lists, options and sums that more than one component uses.
\<close>

section \<open>Machine integers\<close>

type_synonym u32 = "32 word"
type_synonym u64 = "64 word"

section \<open>Fact collections\<close>

named_theorems prog_simps \<open>unfolding rules of the program monad and its primitives\<close>
named_theorems prog_inv \<open>inversion rules: what a successful or failed run says of its parts\<close>
named_theorems emits_intros \<open>compositional rules for the events a program can emit\<close>
named_theorems outcome_intros \<open>compositional rules for the outcomes a program can have\<close>

section \<open>Checked arithmetic of \<open>u32\<close>\<close>

definition checked_sub :: "u32 \<Rightarrow> u32 \<Rightarrow> u32 option" where
  "checked_sub a b = (if b \<le> a then Some (a - b) else None)"

definition checked_add :: "u32 \<Rightarrow> u32 \<Rightarrow> u32 option" where
  "checked_add a b = (if unat a + unat b < 2 ^ 32 then Some (a + b) else None)"

lemma checked_sub_Some_iff:
  "checked_sub a b = Some c \<longleftrightarrow> unat b \<le> unat a \<and> unat c = unat a - unat b"
proof
  assume "checked_sub a b = Some c"
  then have "b \<le> a" "c = a - b" by (auto simp: checked_sub_def split: if_splits)
  then show "unat b \<le> unat a \<and> unat c = unat a - unat b"
    by (simp add: word_le_nat_alt unat_sub)
next
  assume h: "unat b \<le> unat a \<and> unat c = unat a - unat b"
  then have "b \<le> a" by (simp add: word_le_nat_alt)
  moreover from this h have "c = a - b" by (simp add: unat_sub word_unat_eq_iff)
  ultimately show "checked_sub a b = Some c" by (simp add: checked_sub_def)
qed

lemma checked_sub_None_iff: "checked_sub a b = None \<longleftrightarrow> unat a < unat b"
  by (auto simp: checked_sub_def word_le_nat_alt)

lemma checked_add_Some_iff:
  "checked_add a b = Some c \<longleftrightarrow> unat a + unat b < 2 ^ 32 \<and> unat c = unat a + unat b"
  by (auto simp: checked_add_def unat_word_ariths word_unat_eq_iff)

lemma checked_add_None_iff: "checked_add a b = None \<longleftrightarrow> 2 ^ 32 \<le> unat a + unat b"
  by (auto simp: checked_add_def)

section \<open>Lists\<close>

lemma append_same_eq_self: "h @ s = h @ t \<longleftrightarrow> s = t"
  by simp

lemma list_all_append_iff: "list_all P (xs @ ys) \<longleftrightarrow> list_all P xs \<and> list_all P ys"
  by simp

lemma list_all_mono': "list_all P xs \<Longrightarrow> (\<And>x. P x \<Longrightarrow> Q x) \<Longrightarrow> list_all Q xs"
  by (simp add: list_all_iff)

lemma last_snoc_butlast: "xs \<noteq> [] \<Longrightarrow> butlast xs @ [last xs] = xs"
  by simp

lemma filter_eq_Nil_iff: "filter P xs = [] \<longleftrightarrow> list_all (\<lambda>x. \<not> P x) xs"
  by (induction xs) auto

lemma map_filter_Nil_iff: "List.map_filter f xs = [] \<longleftrightarrow> list_all (\<lambda>x. f x = None) xs"
  by (induction xs) (auto split: option.splits)

lemma subseq_distinct: "subseq xs ys \<Longrightarrow> distinct ys \<Longrightarrow> distinct xs"
  by (auto simp: subseq_conv_nths intro: distinct_nthsI)

lemma subseq_set: "subseq xs ys \<Longrightarrow> set xs \<subseteq> set ys"
  by (auto simp: subseq_conv_nths dest: in_set_nthsD)

lemma subseq_tail: "subseq (xs @ ys) zs \<Longrightarrow> subseq ys zs"
  by (auto dest!: list_emb_appendD intro: subseq_drop_many)

end
