(* ===== verification/Rust_Str.thy ===== *)
theory Rust_Str
  imports Prelude
begin

text \<open>
  What the code uses of Rust's string and path types. A \<open>str\<close>, a \<open>String\<close> and a
  \<open>PathBuf\<close> are their bytes (\<^typ>\<open>string\<close>, one \<^typ>\<open>char\<close> per byte), so a multi-byte
  UTF-8 sequence is several characters here and every operation is written on the
  encoding: splitting, trimming of Unicode white space, line iteration, validity of
  UTF-8, parsing and printing of integers, joining of paths.
\<close>

section \<open>Bytes\<close>

abbreviation NL :: char where "NL \<equiv> CHR 0x0A"
abbreviation CR :: char where "CR \<equiv> CHR 0x0D"
abbreviation TAB :: char where "TAB \<equiv> CHR 0x09"
abbreviation SP :: char where "SP \<equiv> CHR 0x20"
abbreviation NUL :: char where "NUL \<equiv> CHR 0x00"
abbreviation SLASH :: char where "SLASH \<equiv> CHR 0x2F"

abbreviation code :: "char \<Rightarrow> nat" where
  "code c \<equiv> of_char c"

lemma code_less: "code c < 256"
  by (metis char_of_char of_char_of mod_less_divisor zero_less_numeral)

section \<open>\<open>str::split\<close>, \<open>splitn\<close>, \<open>strip_prefix\<close>\<close>

fun push_head :: "char \<Rightarrow> string list \<Rightarrow> string list" where
  "push_head x [] = [[x]]"
| "push_head x (y # ys) = (x # y) # ys"

text \<open>\<open>s.split(c)\<close> for a one-byte separator: never empty, \<open>""\<close> gives one empty piece.\<close>

fun split_on :: "char \<Rightarrow> string \<Rightarrow> string list" where
  "split_on c [] = [[]]"
| "split_on c (x # xs) = (if x = c then [] # split_on c xs else push_head x (split_on c xs))"

text \<open>\<open>s.split(pat)\<close> for a string separator: leftmost, non-overlapping matches.\<close>

function split_str :: "string \<Rightarrow> string \<Rightarrow> string list" where
  "split_str pat [] = [[]]"
| "split_str pat (x # xs) =
     (if pat \<noteq> [] \<and> prefix pat (x # xs)
      then [] # split_str pat (drop (length pat) (x # xs))
      else push_head x (split_str pat xs))"
  by pat_completeness auto
termination
  by (relation "measure (\<lambda>(pat, s). length s)") (auto simp: neq_Nil_conv)

text \<open>\<open>s.splitn(2, c)\<close>.\<close>

definition splitn2 :: "char \<Rightarrow> string \<Rightarrow> string list" where
  "splitn2 c s =
     (if c \<in> set s then [takeWhile (\<lambda>x. x \<noteq> c) s, tl (dropWhile (\<lambda>x. x \<noteq> c) s)] else [s])"

definition strip_prefix :: "string \<Rightarrow> string \<Rightarrow> string option" where
  "strip_prefix p s = (if prefix p s then Some (drop (length p) s) else None)"

definition trim_start_matches :: "char \<Rightarrow> string \<Rightarrow> string" where
  "trim_start_matches c s = dropWhile (\<lambda>x. x = c) s"

definition trim_matches :: "char \<Rightarrow> string \<Rightarrow> string" where
  "trim_matches c s = rev (dropWhile (\<lambda>x. x = c) (rev (dropWhile (\<lambda>x. x = c) s)))"

fun join_with :: "string \<Rightarrow> string list \<Rightarrow> string" where
  "join_with sep [] = []"
| "join_with sep [x] = x"
| "join_with sep (x # y # ys) = x @ sep @ join_with sep (y # ys)"

lemma push_head_not_Nil [simp]: "push_head x ys \<noteq> []"
  by (cases ys) auto

lemma split_on_not_Nil [simp]: "split_on c s \<noteq> []"
  by (induction s) auto

lemma split_str_not_Nil [simp]: "split_str pat s \<noteq> []"
  by (induction pat s rule: split_str.induct) auto

lemma split_on_no_sep: "c \<notin> set s \<Longrightarrow> split_on c s = [s]"
  by (induction s) auto

lemma split_on_append: "c \<notin> set w \<Longrightarrow> split_on c (w @ c # s) = w # split_on c s"
  by (induction w) auto

lemma split_on_pieces: "list_all (\<lambda>w. c \<notin> set w) (split_on c s)"
proof (induction s)
  case (Cons x xs)
  then show ?case by (cases "split_on c xs") auto
qed simp

lemma join_split_on: "join_with [c] (split_on c s) = s"
proof (induction s)
  case (Cons x xs)
  obtain p ps where ps: "split_on c xs = p # ps"
    using split_on_not_Nil [of c xs] by (cases "split_on c xs") auto
  then show ?case using Cons by (cases ps) auto
qed simp

lemma split_on_join:
  "ws \<noteq> [] \<Longrightarrow> list_all (\<lambda>w. c \<notin> set w) ws \<Longrightarrow> split_on c (join_with [c] ws) = ws"
  by (induction "[c]" ws rule: join_with.induct) (auto simp: split_on_no_sep split_on_append)

lemma length_split_on: "length (split_on c s) = Suc (count_list s c)"
proof (induction s)
  case (Cons x xs)
  obtain p ps where "split_on c xs = p # ps"
    using split_on_not_Nil [of c xs] by (cases "split_on c xs") auto
  with Cons show ?case by auto
qed simp

lemma strip_prefix_append [simp]: "strip_prefix p (p @ s) = Some s"
  by (simp add: strip_prefix_def)

lemma strip_prefix_Some_iff: "strip_prefix p s = Some r \<longleftrightarrow> s = p @ r"
  by (auto simp: strip_prefix_def prefix_def)

lemma span_sep:
  "c \<notin> set k \<Longrightarrow> takeWhile (\<lambda>x. x \<noteq> c) (k @ c # v) = k \<and> dropWhile (\<lambda>x. x \<noteq> c) (k @ c # v) = c # v"
  by (induction k) auto

lemma splitn2_append: "c \<notin> set k \<Longrightarrow> splitn2 c (k @ c # v) = [k, v]"
  using span_sep [of c k v] by (simp add: splitn2_def)

lemma splitn2_no_sep: "c \<notin> set k \<Longrightarrow> splitn2 c k = [k]"
  by (simp add: splitn2_def)

lemma splitn2_cases:
  obtains (one) "c \<notin> set s" "splitn2 c s = [s]"
  | (two) k v where "s = k @ c # v" "c \<notin> set k" "splitn2 c s = [k, v]"
proof (cases "c \<in> set s")
  case True
  then obtain k v where "s = k @ c # v" "c \<notin> set k" by (meson split_list_first)
  then show thesis using two splitn2_append by blast
next
  case False
  then show thesis using one splitn2_no_sep by blast
qed

section \<open>White space: \<open>trim\<close>, \<open>split_whitespace\<close>\<close>

text \<open>The encodings of the code points with the Unicode property \<open>White_Space\<close>.\<close>

definition ws_seq :: "string \<Rightarrow> bool" where
  "ws_seq s = (case map code s of
      [x] \<Rightarrow> (9 \<le> x \<and> x \<le> 13) \<or> x = 32
    | [x, y] \<Rightarrow> x = 0xC2 \<and> (y = 0x85 \<or> y = 0xA0)
    | [x, y, z] \<Rightarrow>
        x = 0xE1 \<and> y = 0x9A \<and> z = 0x80
        \<or> x = 0xE2 \<and> y = 0x80 \<and> (0x80 \<le> z \<and> z \<le> 0x8A \<or> z = 0xA8 \<or> z = 0xA9 \<or> z = 0xAF)
        \<or> x = 0xE2 \<and> y = 0x81 \<and> z = 0x9F
        \<or> x = 0xE3 \<and> y = 0x80 \<and> z = 0x80
    | _ \<Rightarrow> False)"

text \<open>
  Length of the white-space sequence at the front of \<open>s\<close> (0 if there is none); with
  \<open>r = rev\<close>, of the one at the back of a string given reversed.
\<close>

definition ws_len :: "(string \<Rightarrow> string) \<Rightarrow> string \<Rightarrow> nat" where
  "ws_len r s = (if ws_seq (r (take 1 s)) then 1
     else if ws_seq (r (take 2 s)) then 2
     else if ws_seq (r (take 3 s)) then 3 else 0)"

lemma ws_seq_Nil [simp]: "\<not> ws_seq []"
  by (simp add: ws_seq_def)

lemma ws_len_le: "r [] = [] \<Longrightarrow> s \<noteq> [] \<or> ws_len r s = 0"
  by (auto simp: ws_len_def)

function drop_ws :: "(string \<Rightarrow> string) \<Rightarrow> string \<Rightarrow> string" where
  "drop_ws r s = (if s \<noteq> [] \<and> ws_len r s \<noteq> 0 then drop_ws r (drop (ws_len r s) s) else s)"
  by pat_completeness auto
termination
  by (relation "measure (\<lambda>(r, s). length s)") auto

declare drop_ws.simps [simp del]

definition trim_start :: "string \<Rightarrow> string" where
  "trim_start s = drop_ws id s"

definition trim_end :: "string \<Rightarrow> string" where
  "trim_end s = rev (drop_ws rev (rev s))"

definition trim :: "string \<Rightarrow> string" where
  "trim s = trim_end (trim_start s)"

text \<open>\<open>split_whitespace\<close>: the maximal runs without white space, in order.\<close>

definition flush_word :: "string \<Rightarrow> string list" where
  "flush_word w = (if w = [] then [] else [w])"

function split_ws_from :: "string \<Rightarrow> string \<Rightarrow> string list" where
  "split_ws_from w s =
     (case s of [] \<Rightarrow> flush_word w
      | c # cs \<Rightarrow> (if ws_len id s = 0 then split_ws_from (w @ [c]) cs
                  else flush_word w @ split_ws_from [] (drop (ws_len id s) s)))"
  by pat_completeness auto
termination
  by (relation "measure (\<lambda>(w, s). length s)") auto

declare split_ws_from.simps [simp del]

definition split_whitespace :: "string \<Rightarrow> string list" where
  "split_whitespace s = split_ws_from [] s"

text \<open>Plain bytes: ASCII and not white space. Words of them are what the proofs need.\<close>

definition plain_char :: "char \<Rightarrow> bool" where
  "plain_char c \<longleftrightarrow> 32 < code c \<and> code c < 128"

lemma ws_len_plain: "plain_char c \<Longrightarrow> ws_len id (c # s) = 0"
  by (auto simp: ws_len_def ws_seq_def plain_char_def split: list.splits)

lemma ws_len_plain_rev: "plain_char c \<Longrightarrow> ws_len rev (c # s) = 0"
  by (cases s; cases "tl s") (auto simp: ws_len_def ws_seq_def plain_char_def split: list.splits)

lemma split_ws_plain:
  "list_all plain_char v \<Longrightarrow> split_ws_from w (v @ s) = split_ws_from (w @ v) s"
proof (induction v arbitrary: w)
  case (Cons c v)
  then show ?case
    by (subst split_ws_from.simps) (simp add: ws_len_plain)
qed simp

lemma ws_len_ASCII: "c \<in> {SP, NL, TAB, CR} \<Longrightarrow> ws_len id (c # s) = 1"
  by (auto simp: ws_len_def ws_seq_def)

lemma split_ws_sep:
  "c \<in> {SP, NL, TAB, CR} \<Longrightarrow> split_ws_from w (c # s) = flush_word w @ split_ws_from [] s"
  by (subst split_ws_from.simps) (simp add: ws_len_ASCII)

lemma split_ws_Nil: "split_ws_from w [] = flush_word w"
  by (simp add: split_ws_from.simps)

lemmas split_ws_simps = split_ws_plain split_ws_sep split_ws_Nil

lemma drop_ws_plain: "plain_char c \<Longrightarrow> drop_ws id (c # s) = c # s"
  by (subst drop_ws.simps) (simp add: ws_len_plain)

lemma drop_ws_plain_rev: "plain_char c \<Longrightarrow> drop_ws rev (c # s) = c # s"
  by (subst drop_ws.simps) (simp add: ws_len_plain_rev)

lemma drop_ws_Nil [simp]: "drop_ws r [] = []"
  by (simp add: drop_ws.simps)

lemma trim_plain:
  assumes "list_all plain_char s"
  shows "trim s = s"
proof (cases s)
  case (Cons c cs)
  then have start: "trim_start s = s"
    using assms by (simp add: trim_start_def drop_ws_plain)
  obtain d ds where rev: "rev s = d # ds" "plain_char d"
  proof -
    obtain d ds where dd: "rev s = d # ds" using Cons by (cases "rev s") auto
    moreover from this have "d \<in> set s" by (metis list.set_intros(1) set_rev)
    ultimately show thesis using assms that by (auto simp: list_all_iff)
  qed
  then have "trim_end s = s"
    by (simp add: trim_end_def drop_ws_plain_rev flip: rev_swap)
  then show ?thesis by (simp add: trim_def start)
qed (simp add: trim_def trim_start_def trim_end_def)

section \<open>UTF-8\<close>

definition cont :: "nat \<Rightarrow> bool" where
  "cont x \<longleftrightarrow> 0x80 \<le> x \<and> x \<le> 0xBF"

text \<open>The bytes that may follow the lead byte of a three- or four-byte sequence.\<close>

definition second3 :: "nat \<Rightarrow> nat \<Rightarrow> bool" where
  "second3 x y \<longleftrightarrow>
     (if x = 0xE0 then 0xA0 \<le> y \<and> y \<le> 0xBF
      else if x = 0xED then 0x80 \<le> y \<and> y \<le> 0x9F else cont y)"

definition second4 :: "nat \<Rightarrow> nat \<Rightarrow> bool" where
  "second4 x y \<longleftrightarrow>
     (if x = 0xF0 then 0x90 \<le> y \<and> y \<le> 0xBF
      else if x = 0xF4 then 0x80 \<le> y \<and> y \<le> 0x8F else cont y)"

text \<open>Byte \<open>i\<close> of the string, 0 beyond its end (0 continues no sequence).\<close>

definition byte_at :: "string \<Rightarrow> nat \<Rightarrow> nat" where
  "byte_at s i = (if i < length s then code (s ! i) else 0)"

text \<open>
  The first sequence of a nonempty string: \<open>(True, n)\<close> for a well-formed character of
  \<open>n\<close> bytes, \<open>(False, n)\<close> for a maximal ill-formed part of \<open>n\<close> bytes.
\<close>

definition utf8_step :: "string \<Rightarrow> bool \<times> nat" where
  "utf8_step s = (let x = byte_at s 0; y = byte_at s 1; z = byte_at s 2; u = byte_at s 3 in
     if x < 0x80 then (True, 1)
     else if 0xC2 \<le> x \<and> x \<le> 0xDF then (if cont y then (True, 2) else (False, 1))
     else if 0xE0 \<le> x \<and> x \<le> 0xEF then
       (if \<not> second3 x y then (False, 1) else if cont z then (True, 3) else (False, 2))
     else if 0xF0 \<le> x \<and> x \<le> 0xF4 then
       (if \<not> second4 x y then (False, 1) else if \<not> cont z then (False, 2)
        else if cont u then (True, 4) else (False, 3))
     else (False, 1))"

lemma utf8_step_pos: "0 < snd (utf8_step s)"
  by (simp add: utf8_step_def Let_def)

function utf8_valid :: "string \<Rightarrow> bool" where
  "utf8_valid s = (if s = [] then True
     else if fst (utf8_step s) then utf8_valid (drop (snd (utf8_step s)) s) else False)"
  by pat_completeness auto
termination
  by (relation "measure length") (simp_all add: utf8_step_pos)

declare utf8_valid.simps [simp del]

text \<open>\<open>String::from_utf8_lossy\<close>: every ill-formed part becomes U+FFFD.\<close>

function from_utf8_lossy :: "string \<Rightarrow> string" where
  "from_utf8_lossy s = (if s = [] then [] else
     (let (ok, n) = utf8_step s in
      (if ok then take n s else [CHR 0xEF, CHR 0xBF, CHR 0xBD]) @ from_utf8_lossy (drop n s)))"
  by pat_completeness auto
termination
proof (relation "measure length", goal_cases)
  case (2 s x xa y)
  then have "0 < y" using utf8_step_pos [of s] by (metis snd_conv)
  with 2 show ?case by simp
qed simp

declare from_utf8_lossy.simps [simp del]

lemma utf8_valid_Nil [simp]: "utf8_valid []"
  by (subst utf8_valid.simps) simp

lemma utf8_valid_ascii [simp]: "code c < 128 \<Longrightarrow> utf8_valid (c # s) \<longleftrightarrow> utf8_valid s"
  by (subst utf8_valid.simps) (simp add: utf8_step_def byte_at_def)

lemma utf8_valid_all_ascii: "list_all (\<lambda>c. code c < 128) s \<Longrightarrow> utf8_valid s"
  by (induction s) auto

lemma lossy_valid: "utf8_valid s \<Longrightarrow> from_utf8_lossy s = s"
proof (induction s rule: from_utf8_lossy.induct)
  case (1 s)
  show ?case
  proof (cases "s = []")
    case False
    obtain ok n where st: "utf8_step s = (ok, n)" by fastforce
    from "1.prems" False st have ok: "ok" "utf8_valid (drop n s)"
      by (subst (asm) utf8_valid.simps; simp split: if_splits)+
    then have "from_utf8_lossy (drop n s) = drop n s"
      using "1.IH" [OF False st [symmetric] refl] by simp
    with False st ok show ?thesis by (subst from_utf8_lossy.simps) simp
  qed (simp add: from_utf8_lossy.simps)
qed

section \<open>Lines\<close>

definition strip_cr :: "string \<Rightarrow> string" where
  "strip_cr l = (if l \<noteq> [] \<and> last l = CR then butlast l else l)"

text \<open>\<open>str::lines\<close>: a final newline ends the last line, and only ended lines lose a \<open>\r\<close>.\<close>

definition lines :: "string \<Rightarrow> string list" where
  "lines s = (let ps = split_on NL s in
     map strip_cr (butlast ps) @ (if last ps = [] then [] else [last ps]))"

lemma split_on_unlines:
  "list_all (\<lambda>l. c \<notin> set l) ls \<Longrightarrow>
   split_on c (concat (map (\<lambda>l. l @ [c]) ls) @ t) = ls @ split_on c t"
  by (induction ls) (auto simp: split_on_append)

lemma lines_unlines:
  assumes "list_all (\<lambda>l. NL \<notin> set l \<and> CR \<notin> set l) ls"
  shows "lines (concat (map (\<lambda>l. l @ [NL]) ls)) = ls"
proof -
  have "split_on NL (concat (map (\<lambda>l. l @ [NL]) ls)) = ls @ [[]]"
    using split_on_unlines [of NL ls "[]"] assms by (simp add: list_all_iff)
  moreover have "map strip_cr ls = ls"
    using assms by (intro map_idI) (auto simp: strip_cr_def list_all_iff dest!: last_in_set)
  ultimately show ?thesis by (simp add: lines_def)
qed

lemma lines_Nil [simp]: "lines [] = []"
  by (simp add: lines_def)

section \<open>Integers: \<open>parse\<close>, \<open>from_str_radix\<close>, \<open>Display\<close>\<close>

datatype int_error = IntEmpty | InvalidDigit | PosOverflow

definition to_digit :: "nat \<Rightarrow> char \<Rightarrow> nat option" where
  "to_digit radix c = (let x = code c;
      d = (if 48 \<le> x \<and> x \<le> 57 then x - 48
           else if 97 \<le> x \<and> x \<le> 122 then x - 87
           else if 65 \<le> x \<and> x \<le> 90 then x - 55 else radix)
    in if d < radix then Some d else None)"

text \<open>The digit loop: at each character the invalid digit is reported before the overflow.\<close>

fun parse_digits :: "nat \<Rightarrow> nat \<Rightarrow> nat \<Rightarrow> string \<Rightarrow> int_error + nat" where
  "parse_digits bound radix acc [] = Inr acc"
| "parse_digits bound radix acc (c # cs) =
     (case to_digit radix c of
        None \<Rightarrow> Inl InvalidDigit
      | Some d \<Rightarrow> if bound \<le> acc * radix + d then Inl PosOverflow
                  else parse_digits bound radix (acc * radix + d) cs)"

text \<open>An unsigned parse: one leading \<open>+\<close> is accepted, a sign alone is an invalid digit.\<close>

definition parse_uint :: "nat \<Rightarrow> nat \<Rightarrow> string \<Rightarrow> int_error + nat" where
  "parse_uint bound radix s = (case s of
      [] \<Rightarrow> Inl IntEmpty
    | c # cs \<Rightarrow> if cs = [] \<and> (c = CHR ''+'' \<or> c = CHR ''-'') then Inl InvalidDigit
                else parse_digits bound radix 0 (if c = CHR ''+'' then cs else s))"

definition parse_u32 :: "string \<Rightarrow> int_error + u32" where
  "parse_u32 s = map_sum id of_nat (parse_uint (2 ^ 32) 10 s)"

definition parse_u64 :: "nat \<Rightarrow> string \<Rightarrow> int_error + u64" where
  "parse_u64 radix s = map_sum id of_nat (parse_uint (2 ^ 64) radix s)"

definition digit_char :: "nat \<Rightarrow> char" where
  "digit_char d = char_of (48 + d)"

fun show_nat :: "nat \<Rightarrow> string" where
  "show_nat n = (if n < 10 then [digit_char n] else show_nat (n div 10) @ [digit_char (n mod 10)])"

declare show_nat.simps [simp del]

definition show_int :: "int \<Rightarrow> string" where
  "show_int i = (if i < 0 then CHR ''-'' # show_nat (nat (- i)) else show_nat (nat i))"

lemma code_digit_char: "d < 10 \<Longrightarrow> code (digit_char d) = 48 + d"
  by (simp add: digit_char_def)

lemma to_digit_digit_char [simp]: "d < 10 \<Longrightarrow> to_digit 10 (digit_char d) = Some d"
  by (simp add: to_digit_def code_digit_char Let_def)

lemma plain_digit_char: "d < 10 \<Longrightarrow> plain_char (digit_char d)"
  by (simp add: plain_char_def code_digit_char)

lemma show_nat_not_Nil [simp]: "show_nat n \<noteq> []"
  by (subst show_nat.simps) simp

lemma show_nat_digits: "list_all (\<lambda>c. \<exists>d < 10. c = digit_char d) (show_nat n)"
proof (induction n rule: show_nat.induct)
  case (1 n)
  show ?case
  proof (cases "n < 10")
    case True
    then show ?thesis by (subst show_nat.simps) auto
  next
    case False
    moreover have "\<exists>d < 10. digit_char (n mod 10) = digit_char d"
      by (rule exI [of _ "n mod 10"]) simp
    ultimately show ?thesis using 1 by (subst show_nat.simps) simp
  qed
qed

lemma show_nat_plain: "list_all plain_char (show_nat n)"
  using show_nat_digits [of n] by (auto simp: list_all_iff plain_digit_char)

lemma show_nat_no_char: "code c < 48 \<or> 57 < code c \<Longrightarrow> c \<notin> set (show_nat n)"
  using show_nat_digits [of n] by (auto simp: list_all_iff code_digit_char)

lemma parse_digits_append:
  "parse_digits b r acc (xs @ ys) =
     (case parse_digits b r acc xs of Inl e \<Rightarrow> Inl e | Inr a \<Rightarrow> parse_digits b r a ys)"
  by (induction xs arbitrary: acc) (auto split: option.splits)

lemma parse_digits_show_nat: "n < b \<Longrightarrow> parse_digits b 10 0 (show_nat n) = Inr n"
proof (induction n rule: show_nat.induct)
  case (1 n)
  show ?case
  proof (cases "n < 10")
    case True
    with 1 show ?thesis by (subst show_nat.simps) simp
  next
    case False
    have lt: "n div 10 < b" using 1 by (meson div_le_dividend le_less_trans)
    have "parse_digits b 10 0 (show_nat (n div 10)) = Inr (n div 10)"
      by (rule "1.IH" [OF False lt])
    moreover have "n div 10 * 10 + n mod 10 = n" by (rule div_mult_mod_eq)
    ultimately show ?thesis
      using False 1 by (subst show_nat.simps) (simp add: parse_digits_append)
  qed
qed

lemma parse_uint_show_nat: "n < b \<Longrightarrow> parse_uint b 10 (show_nat n) = Inr n"
proof -
  assume n: "n < b"
  obtain c cs where s: "show_nat n = c # cs" by (cases "show_nat n") auto
  have "CHR ''+'' \<notin> set (show_nat n)" "CHR ''-'' \<notin> set (show_nat n)"
    by (rule show_nat_no_char; simp)+
  then have "c \<noteq> CHR ''+''" "c \<noteq> CHR ''-''" by (auto simp: s)
  then show ?thesis
    using parse_digits_show_nat [OF n] by (simp add: parse_uint_def s)
qed

lemma parse_u32_show: "parse_u32 (show_nat (unat w)) = Inr w"
  by (simp add: parse_u32_def parse_uint_show_nat unsigned_less [where 'b = 32, simplified])

lemma parse_digits_bound:
  "acc < b \<Longrightarrow> parse_digits b r acc s = Inr n \<Longrightarrow> n < b"
proof (induction s arbitrary: acc)
  case (Cons c s)
  from Cons.prems obtain d where
    "to_digit r c = Some d" "acc * r + d < b" "parse_digits b r (acc * r + d) s = Inr n"
    by (auto split: option.splits if_splits)
  then show ?case using Cons.IH by blast
qed simp

lemma parse_uint_bound:
  assumes "0 < b" "parse_uint b r s = Inr n"
  shows "n < b"
proof -
  obtain t where "parse_digits b r 0 t = Inr n"
    using assms(2) unfolding parse_uint_def by (auto split: list.splits if_split_asm)
  with assms(1) show ?thesis by (rule parse_digits_bound)
qed

section \<open>Paths\<close>

definition is_absolute :: "string \<Rightarrow> bool" where
  "is_absolute p \<longleftrightarrow> p \<noteq> [] \<and> hd p = SLASH"

text \<open>\<open>PathBuf::push\<close> and \<open>Path::join\<close>: an absolute argument replaces the path.\<close>

definition path_join :: "string \<Rightarrow> string \<Rightarrow> string" where
  "path_join base p =
     (if is_absolute p then p
      else if base \<noteq> [] \<and> last base \<noteq> SLASH then base @ [SLASH] @ p else base @ p)"

datatype component = RootDir | CurDir | ParentDir | Normal string

text \<open>
  \<open>Path::components\<close>: empty pieces and \<open>.\<close> pieces disappear, except a \<open>.\<close> at the very
  start of a relative path.
\<close>

definition piece_component :: "string \<Rightarrow> component option" where
  "piece_component w = (if w = [] \<or> w = ''.'' then None
     else if w = ''..'' then Some ParentDir else Some (Normal w))"

definition components :: "string \<Rightarrow> component list" where
  "components p = (let ws = split_on SLASH p in
     (if is_absolute p then [RootDir] else if hd ws = ''.'' then [CurDir] else [])
     @ List.map_filter piece_component ws)"

text \<open>\<open>Path::starts_with\<close> compares whole components.\<close>

definition path_starts_with :: "string \<Rightarrow> string \<Rightarrow> bool" where
  "path_starts_with p base = prefix (components base) (components p)"

lemma path_join_rel:
  "p \<noteq> [] \<Longrightarrow> hd p \<noteq> SLASH \<Longrightarrow> base \<noteq> [] \<Longrightarrow> last base \<noteq> SLASH \<Longrightarrow>
   path_join base p = base @ [SLASH] @ p"
  by (simp add: path_join_def is_absolute_def)

lemma path_join_abs: "is_absolute p \<Longrightarrow> path_join base p = p"
  by (simp add: path_join_def)

lemma path_starts_with_refl [simp]: "path_starts_with p p"
  by (simp add: path_starts_with_def)

lemma path_starts_with_trans:
  "path_starts_with p q \<Longrightarrow> path_starts_with q r \<Longrightarrow> path_starts_with p r"
  by (auto simp: path_starts_with_def intro: prefix_order.trans)


end
