(* ===== verification/Sys.thy ===== *)
theory Sys
  imports Rust_Str
begin

text \<open>
  The program monad and the interface to everything outside the repository: the Linux
  kernel (through std, rustix and libc) and the \<open>container_pid\<close> crate.

  A program is a function of a \<^emph>\<open>kernel\<close> and of the history of the calls made so far; it
  returns how it ended and the extended history. The kernel is a parameter of every
  definition: for every history it says what the next call answers. It is a record of
  arbitrary functions, so a statement over all kernels holds whatever the system does:
  refused calls, interrupted calls, files that change between two reads.

  The history records the calls in the order the code makes them, each with the error or
  the small number (descriptor, process id, byte count) it answered. Properties about what
  the program does to the system are properties of the histories it produces. Log lines
  (\<open>warn!\<close>, \<open>debug!\<close>) and the implicit close of a descriptor at the end of its
  scope are not calls of the model; every explicit \<open>drop\<close> is.
\<close>

section \<open>Calls, events, kernels\<close>

type_synonym errno = nat
type_synonym fd = nat
type_synonym pid = int

text \<open>\<open>std::io::Error\<close> and \<open>rustix::io::Errno\<close>.\<close>

datatype io_error = Os errno | InvalidData | WriteZero

abbreviation (input) EINTR :: io_error where "EINTR \<equiv> Os 4"
abbreviation (input) EAGAIN :: io_error where "EAGAIN \<equiv> Os 11"
abbreviation (input) ENOENT :: io_error where "ENOENT \<equiv> Os 2"
abbreviation (input) ESRCH :: io_error where "ESRCH \<equiv> Os 3"
abbreviation (input) ENOSYS :: io_error where "ENOSYS \<equiv> Os 38"
abbreviation (input) ERANGE :: nat where "ERANGE \<equiv> 34"

type_synonym sig = nat

abbreviation (input) SIGKILL :: sig where "SIGKILL \<equiv> 9"
abbreviation (input) SIGTERM :: sig where "SIGTERM \<equiv> 15"
abbreviation (input) SIGCONT :: sig where "SIGCONT \<equiv> 18"
abbreviation (input) SIGSTOP :: sig where "SIGSTOP \<equiv> 19"

type_synonym environ = "string \<rightharpoonup> string"

record winsize =
  ws_row :: nat
  ws_col :: nat
  ws_xpixel :: nat
  ws_ypixel :: nat

record termios =
  input_modes :: u32
  output_modes :: u32
  local_modes :: u32
  control_modes :: u32
  vmin :: nat
  vtime :: nat

text \<open>The flag constants of the platform's terminal interface.\<close>

record tty_flags =
  IGNBRK :: u32
  BRKINT :: u32
  PARMRK :: u32
  ISTRIP :: u32
  INLCR :: u32
  IGNCR :: u32
  ICRNL :: u32
  IXON :: u32
  OPOST :: u32
  ECHO :: u32
  ECHONL :: u32
  ICANON :: u32
  ISIG :: u32
  IEXTEN :: u32
  CSIZE :: u32
  PARENB :: u32
  CS8 :: u32

datatype (plugins only: ) call =
  \<comment> \<open>files\<close>
    Open_read string | Open_write string | Open_append string | Open_rw string
  | Create string | Write_all fd string | Fs_write string string
  | Create_dir_all string | Read_link string | Stat string | Read_dir string
  | Dir_entries fd | Statat fd string | Openat_in_root fd string
  \<comment> \<open>descriptors\<close>
  | Read fd nat | Read_to_end fd | Write fd string | Dup fd | Dup2 fd nat | Close fd | Pipe | Poll "(fd \<times> bool) list" bool
  \<comment> \<open>namespaces, credentials, capabilities\<close>
  | Setns fd | Unshare_newns | Unshare_newuser | Unshare_newuser_newns
  | Set_groups "u32 list" | Set_gid u32 | Set_uid u32 | Drop_bounding u64 | Set_dumpable
  \<comment> \<open>mounts\<close>
  | Fsopen string | Mount_private string | Mount_tmpfs string | Mount_bind string string
  | Open_tree fd string | Mount_setattr_idmap fd fd | Move_mount fd string
  | Chroot string | Chdir string
  \<comment> \<open>processes\<close>
  | Fork | Waitpid pid bool | Waitpid_nohang pid | Kill pid sig | Sleep nat | Sleep_nanos nat | Now | Execve string "string list" environ
  \<comment> \<open>terminals\<close>
  | Isatty fd | Tcgetattr fd | Tcsetattr fd bool termios | Tcgetwinsize fd | Tcsetwinsize fd winsize
  | Openpt | Grantpt fd | Unlockpt fd | Ptsname fd | Setsid | Tiocsctty fd
  \<comment> \<open>sockets\<close>
  | Socketpair | Sendmsg fd string "fd list" | Recvmsg fd nat
  \<comment> \<open>user database, container engines, console\<close>
  | Getpwnam string nat | Lookup_container string "nat list" | Eprint string

type_synonym event = "call \<times> (io_error + nat)"
type_synonym hist = "event list"

text \<open>
  A file that was opened for reading: the bytes it delivers, then either the end of the
  file (\<open>None\<close>) or an error that every further read repeats.
\<close>

type_synonym stream = "string \<times> io_error option"

datatype file_type = Directory | Unknown | Other_type

text \<open>What the accessors of rustix's \<open>WaitStatus\<close> answer.\<close>

record wait_status =
  stopped :: bool
  terminating_signal :: "int option"
  exit_status :: "int option"

datatype pw_reply = Pw_error nat | Pw_none | Pw_entry u32 u32 string

text \<open>
  \<open>k_call\<close> answers every call whose result is a small number or nothing; the other fields
  answer the calls that return data. \<open>k_env\<close> is the environment the program was started
  with; \<open>k_types\<close>, \<open>k_lookup\<close> and \<open>k_named_signal\<close>, \<open>k_pid\<close> stand for functions of
  \<open>container_pid\<close> and rustix; \<open>k_strerror\<close>, \<open>k_debug_error\<close> and \<open>k_debug_status\<close> for the texts
  that the system has for an error and for a wait status. \<open>k_now\<close> is the monotonic clock in
  nanoseconds, \<open>k_backtrace\<close> and \<open>k_show_secs\<close> are the texts of a captured backtrace (if any) and
  of a duration in seconds with two decimals.
\<close>

record kernel =
  k_call :: "hist \<Rightarrow> call \<Rightarrow> io_error + nat"
  k_pair :: "hist \<Rightarrow> call \<Rightarrow> io_error + fd \<times> fd"
  k_read :: "hist \<Rightarrow> string \<Rightarrow> stream"
  k_link :: "hist \<Rightarrow> string \<Rightarrow> io_error + string"
  k_stat :: "hist \<Rightarrow> string \<Rightarrow> io_error + u32 \<times> u32"
  k_dir :: "hist \<Rightarrow> string \<Rightarrow> io_error + (io_error + string) list"
  k_entries :: "hist \<Rightarrow> fd \<Rightarrow> io_error + (io_error + string \<times> file_type) list"
  k_fdread :: "hist \<Rightarrow> fd \<Rightarrow> nat \<Rightarrow> io_error + string"
  k_fdall :: "hist \<Rightarrow> fd \<Rightarrow> io_error + string"
  k_poll :: "hist \<Rightarrow> io_error + bool list"
  k_wait :: "hist \<Rightarrow> pid \<Rightarrow> io_error + wait_status option"
  k_recv :: "hist \<Rightarrow> fd \<Rightarrow> nat \<Rightarrow> io_error + string \<times> fd list list"
  k_pwnam :: "hist \<Rightarrow> string \<Rightarrow> nat \<Rightarrow> pw_reply"
  k_termios :: "hist \<Rightarrow> fd \<Rightarrow> io_error + termios"
  k_winsize :: "hist \<Rightarrow> fd \<Rightarrow> io_error + winsize"
  k_ptsname :: "hist \<Rightarrow> fd \<Rightarrow> io_error + string"
  k_getpid :: "hist \<Rightarrow> pid"
  k_uid :: "hist \<Rightarrow> u32"
  k_gid :: "hist \<Rightarrow> u32"
  k_euid :: "hist \<Rightarrow> u32"
  k_env :: "string \<Rightarrow> string option"
  k_types :: "string \<Rightarrow> nat option"
  k_lookup :: "hist \<Rightarrow> string \<Rightarrow> nat list \<Rightarrow> string + int"
  k_pid :: "int \<Rightarrow> pid option"
  k_flags :: tty_flags
  k_named_signal :: "int \<Rightarrow> sig option"
  k_strerror :: "io_error \<Rightarrow> string"
  k_debug_error :: "io_error \<Rightarrow> string"
  k_debug_status :: "wait_status \<Rightarrow> string"
  k_now :: "hist \<Rightarrow> nat"
  k_fdstream :: "hist \<Rightarrow> fd \<Rightarrow> stream"
  k_backtrace :: "hist \<Rightarrow> string option"
  k_show_secs :: "nat \<Rightarrow> string"

section \<open>The program monad\<close>

text \<open>
  How a run ends: with the value of \<open>Ok\<close>, with the error of \<open>Err\<close>, with a panic, by
  \<open>process::exit\<close>, by a successful \<open>exec\<close> (the process image is replaced), or not at all.
\<close>

datatype ('a, 'e) res = Ret 'a | Err 'e | Panic | Exit int | Execed | Hangs

type_synonym ('a, 'e) prog = "kernel \<Rightarrow> hist \<Rightarrow> ('a, 'e) res \<times> hist"

definition retP :: "'a \<Rightarrow> ('a, 'e) prog" where
  "retP x = (\<lambda>K h. (Ret x, h))"

definition throwP :: "'e \<Rightarrow> ('a, 'e) prog" where
  "throwP e = (\<lambda>K h. (Err e, h))"

definition panicP :: "('a, 'e) prog" where
  "panicP = (\<lambda>K h. (Panic, h))"

definition exitP :: "int \<Rightarrow> ('a, 'e) prog" where
  "exitP n = (\<lambda>K h. (Exit n, h))"

definition hangP :: "('a, 'e) prog" where
  "hangP = (\<lambda>K h. (Hangs, h))"

definition bindP :: "('a, 'e) prog \<Rightarrow> ('a \<Rightarrow> ('b, 'e) prog) \<Rightarrow> ('b, 'e) prog" where
  "bindP m f = (\<lambda>K h. case m K h of
      (Ret x, h') \<Rightarrow> f x K h'
    | (Err e, h') \<Rightarrow> (Err e, h')
    | (Panic, h') \<Rightarrow> (Panic, h')
    | (Exit n, h') \<Rightarrow> (Exit n, h')
    | (Execed, h') \<Rightarrow> (Execed, h')
    | (Hangs, h') \<Rightarrow> (Hangs, h'))"

abbreviation thenP :: "('a, 'e) prog \<Rightarrow> ('b, 'e) prog \<Rightarrow> ('b, 'e) prog" where
  "thenP m n \<equiv> bindP m (\<lambda>_. n)"

text \<open>\<open>?\<close> with a \<open>From\<close> conversion; reading the kernel's static data.\<close>

definition map_errP :: "('e \<Rightarrow> 'f) \<Rightarrow> ('a, 'e) prog \<Rightarrow> ('a, 'f) prog" where
  "map_errP g m = (\<lambda>K h. case m K h of
      (Ret x, h') \<Rightarrow> (Ret x, h')
    | (Err e, h') \<Rightarrow> (Err (g e), h')
    | (Panic, h') \<Rightarrow> (Panic, h')
    | (Exit n, h') \<Rightarrow> (Exit n, h')
    | (Execed, h') \<Rightarrow> (Execed, h')
    | (Hangs, h') \<Rightarrow> (Hangs, h'))"

text \<open>The \<open>Result\<close> of a block as a value, for code that matches on it.\<close>

definition attemptP :: "('a, 'e) prog \<Rightarrow> ('e + 'a, 'f) prog" where
  "attemptP m = (\<lambda>K h. case m K h of
      (Ret x, h') \<Rightarrow> (Ret (Inr x), h')
    | (Err e, h') \<Rightarrow> (Ret (Inl e), h')
    | (Panic, h') \<Rightarrow> (Panic, h')
    | (Exit n, h') \<Rightarrow> (Exit n, h')
    | (Execed, h') \<Rightarrow> (Execed, h')
    | (Hangs, h') \<Rightarrow> (Hangs, h'))"

definition askP :: "(kernel \<Rightarrow> hist \<Rightarrow> 'a) \<Rightarrow> ('a, 'e) prog" where
  "askP q = (\<lambda>K h. (Ret (q K h), h))"

definition fromSum :: "'e + 'a \<Rightarrow> ('a, 'e) prog" where
  "fromSum r = (case r of Inl e \<Rightarrow> throwP e | Inr x \<Rightarrow> retP x)"

text \<open>\<open>call c\<close> gives the \<open>Result\<close> as a value, \<open>tryP\<close> is \<open>.map_err(g)?\<close>.\<close>

definition call :: "call \<Rightarrow> (io_error + nat, 'e) prog" where
  "call c = (\<lambda>K h. (Ret (k_call K h c), h @ [(c, k_call K h c)]))"

definition query :: "call \<Rightarrow> (kernel \<Rightarrow> hist \<Rightarrow> io_error + 'a) \<Rightarrow> (io_error + 'a, 'e) prog" where
  "query c q = (\<lambda>K h. (Ret (q K h), h @ [(c, map_sum id (\<lambda>_. 0) (q K h))]))"

definition tryP :: "('d \<Rightarrow> 'e) \<Rightarrow> ('d + 'a, 'e) prog \<Rightarrow> ('a, 'e) prog" where
  "tryP g m = bindP m (\<lambda>r. case r of Inl d \<Rightarrow> throwP (g d) | Inr x \<Rightarrow> retP x)"

definition execP :: "call \<Rightarrow> (io_error, 'e) prog" where
  "execP c = (\<lambda>K h. case k_call K h c of
      Inl e \<Rightarrow> (Ret e, h @ [(c, Inl e)]) | Inr n \<Rightarrow> (Execed, h @ [(c, Inr n)]))"

fun forP :: "('x \<Rightarrow> (unit, 'e) prog) \<Rightarrow> 'x list \<Rightarrow> (unit, 'e) prog" where
  "forP f [] = retP ()"
| "forP f (x # xs) = bindP (f x) (\<lambda>_. forP f xs)"

fun foldP :: "('x \<Rightarrow> 'a \<Rightarrow> ('a, 'e) prog) \<Rightarrow> 'x list \<Rightarrow> 'a \<Rightarrow> ('a, 'e) prog" where
  "foldP f [] a = retP a"
| "foldP f (x # xs) a = bindP (f x a) (\<lambda>b. foldP f xs b)"

text \<open>
  \<open>loop\<close>: the body gives the next state (\<open>Inl\<close>) or the result (\<open>Inr\<close>). A loop that never
  gives a result is \<open>None\<close>, so the program hangs.
\<close>

partial_function (option) loop_run ::
    "('s \<Rightarrow> ('s + 'a, 'e) prog) \<Rightarrow> kernel \<Rightarrow> 's \<Rightarrow> hist \<Rightarrow> (('a, 'e) res \<times> hist) option" where
  "loop_run body K s h = (case body s K h of (r, h') \<Rightarrow> (case r of
      Ret v \<Rightarrow> (case v of Inl s' \<Rightarrow> loop_run body K s' h' | Inr x \<Rightarrow> Some (Ret x, h'))
    | Err e \<Rightarrow> Some (Err e, h')
    | Panic \<Rightarrow> Some (Panic, h')
    | Exit n \<Rightarrow> Some (Exit n, h')
    | Execed \<Rightarrow> Some (Execed, h')
    | Hangs \<Rightarrow> Some (Hangs, h')))"

definition loopP :: "('s \<Rightarrow> ('s + 'a, 'e) prog) \<Rightarrow> 's \<Rightarrow> ('a, 'e) prog" where
  "loopP body s = (\<lambda>K h. case loop_run body K s h of None \<Rightarrow> (Hangs, h) | Some r \<Rightarrow> r)"

text \<open>A value with a \<open>Drop\<close> implementation leaves its scope: on return, error and panic,
  but not when the process exits, is replaced or loops.\<close>

definition finallyP :: "('a, 'e) prog \<Rightarrow> (unit, 'e) prog \<Rightarrow> ('a, 'e) prog" where
  "finallyP m d = (\<lambda>K h. case m K h of
      (Ret x, h') \<Rightarrow> (Ret x, snd (d K h'))
    | (Err e, h') \<Rightarrow> (Err e, snd (d K h'))
    | (Panic, h') \<Rightarrow> (Panic, snd (d K h'))
    | (Exit n, h') \<Rightarrow> (Exit n, h')
    | (Execed, h') \<Rightarrow> (Execed, h')
    | (Hangs, h') \<Rightarrow> (Hangs, h'))"

lemmas prog_defs = retP_def throwP_def panicP_def exitP_def hangP_def bindP_def map_errP_def
  attemptP_def askP_def fromSum_def call_def query_def tryP_def execP_def

section \<open>Reading files\<close>

text \<open>\<open>BufRead::lines\<close> over a stream: a line that is not UTF-8 is an error of its own; after
  the bytes comes the error of the read, if there is one.\<close>

definition check_utf8 :: "string \<Rightarrow> io_error + string" where
  "check_utf8 l = (if utf8_valid l then Inr l else Inl InvalidData)"

definition reader_lines :: "stream \<Rightarrow> (io_error + string) list" where
  "reader_lines st = (case st of (data, tail) \<Rightarrow>
     (let ps = split_on NL data in
      map (\<lambda>l. map_sum id strip_cr (check_utf8 l)) (butlast ps)
      @ (case tail of Some e \<Rightarrow> [Inl e]
         | None \<Rightarrow> if last ps = [] then [] else [check_utf8 (last ps)])))"

text \<open>\<open>read_to_string\<close> of an open file, and \<open>std::fs::read_to_string\<close>.\<close>

definition stream_to_string :: "stream \<Rightarrow> io_error + string" where
  "stream_to_string st = (case st of
      (data, Some e) \<Rightarrow> Inl e
    | (data, None) \<Rightarrow> check_utf8 data)"

definition open_stream :: "string \<Rightarrow> (io_error + stream, 'e) prog" where
  "open_stream path = bindP (call (Open_read path)) (\<lambda>r. case r of
      Inl e \<Rightarrow> retP (Inl e)
    | Inr _ \<Rightarrow> askP (\<lambda>K h. Inr (k_read K h path)))"

definition read_to_string :: "string \<Rightarrow> (io_error + string, 'e) prog" where
  "read_to_string path = bindP (open_stream path) (\<lambda>r. case r of
      Inl e \<Rightarrow> retP (Inl e)
    | Inr st \<Rightarrow> retP (stream_to_string st))"

definition read_link :: "string \<Rightarrow> (io_error + string, 'e) prog" where
  "read_link path = query (Read_link path) (\<lambda>K h. k_link K h path)"

text \<open>\<open>env::var_os\<close> and \<open>env::var\<close> (which fails on values that are not UTF-8).\<close>

definition var_os :: "kernel \<Rightarrow> string \<Rightarrow> string option" where
  "var_os K name = k_env K name"

definition env_var :: "kernel \<Rightarrow> string \<Rightarrow> string option" where
  "env_var K name = (case k_env K name of
      Some v \<Rightarrow> if utf8_valid v then Some v else None | None \<Rightarrow> None)"

lemma reader_lines_text:
  assumes "list_all (\<lambda>l. NL \<notin> set l \<and> CR \<notin> set l \<and> utf8_valid l) ls"
  shows "reader_lines (concat (map (\<lambda>l. l @ [NL]) ls), None) = map Inr ls"
proof -
  have "split_on NL (concat (map (\<lambda>l. l @ [NL]) ls)) = ls @ [[]]"
    using split_on_unlines [of NL ls "[]"] assms by (simp add: list_all_iff)
  moreover have "map_sum id strip_cr (check_utf8 l) = Inr l" if "l \<in> set ls" for l
    using assms that by (auto simp: check_utf8_def strip_cr_def list_all_iff dest!: last_in_set)
  ultimately show ?thesis by (simp add: reader_lines_def)
qed

end
