(* ===== verification/Prog_Logic.thy ===== *)
theory Prog_Logic
  imports Sys
begin

text \<open>
  Reasoning rules for programs. \<open>prog_simps\<close> evaluate a program at a kernel and a history;
  \<open>prog_inv\<close> take a run with a known outcome apart into the runs of its parts; \<open>emits P m\<close>
  says that \<open>m\<close> only extends the history, by events that all satisfy \<open>P\<close>; \<open>ends_in S m\<close>
  bounds the ways in which \<open>m\<close> can end. The last two have one rule per combinator, so a
  component proves them with \<open>(intro emits_intros)\<close> over its own collection.
\<close>

section \<open>Evaluation\<close>

lemma retP_run [prog_simps]: "retP x K h = (Ret x, h)"
  by (simp add: retP_def)

lemma throwP_run [prog_simps]: "throwP e K h = (Err e, h)"
  by (simp add: throwP_def)

lemma panicP_run [prog_simps]: "panicP K h = (Panic, h)"
  by (simp add: panicP_def)

lemma exitP_run [prog_simps]: "exitP n K h = (Exit n, h)"
  by (simp add: exitP_def)

lemma hangP_run [prog_simps]: "hangP K h = (Hangs, h)"
  by (simp add: hangP_def)

lemma askP_run [prog_simps]: "askP q K h = (Ret (q K h), h)"
  by (simp add: askP_def)

lemma call_run [prog_simps]: "call c K h = (Ret (k_call K h c), h @ [(c, k_call K h c)])"
  by (simp add: call_def)

lemma query_run [prog_simps]:
  "query c q K h = (Ret (q K h), h @ [(c, map_sum id (\<lambda>_. 0) (q K h))])"
  by (simp add: query_def)

lemma fromSum_run [prog_simps]:
  "fromSum r K h = (case r of Inl e \<Rightarrow> (Err e, h) | Inr x \<Rightarrow> (Ret x, h))"
  by (auto simp: fromSum_def prog_simps split: sum.splits)

lemma bindP_run [prog_simps]:
  "bindP m f K h = (case m K h of
      (Ret x, h') \<Rightarrow> f x K h'
    | (Err e, h') \<Rightarrow> (Err e, h')
    | (Panic, h') \<Rightarrow> (Panic, h')
    | (Exit n, h') \<Rightarrow> (Exit n, h')
    | (Execed, h') \<Rightarrow> (Execed, h')
    | (Hangs, h') \<Rightarrow> (Hangs, h'))"
  by (simp add: bindP_def)

lemma map_errP_run [prog_simps]:
  "map_errP g m K h = (case m K h of
      (Ret x, h') \<Rightarrow> (Ret x, h')
    | (Err e, h') \<Rightarrow> (Err (g e), h')
    | (Panic, h') \<Rightarrow> (Panic, h')
    | (Exit n, h') \<Rightarrow> (Exit n, h')
    | (Execed, h') \<Rightarrow> (Execed, h')
    | (Hangs, h') \<Rightarrow> (Hangs, h'))"
  by (simp add: map_errP_def)

lemma attemptP_run [prog_simps]:
  "attemptP m K h = (case m K h of
      (Ret x, h') \<Rightarrow> (Ret (Inr x), h')
    | (Err e, h') \<Rightarrow> (Ret (Inl e), h')
    | (Panic, h') \<Rightarrow> (Panic, h')
    | (Exit n, h') \<Rightarrow> (Exit n, h')
    | (Execed, h') \<Rightarrow> (Execed, h')
    | (Hangs, h') \<Rightarrow> (Hangs, h'))"
  by (simp add: attemptP_def)

lemma tryP_run [prog_simps]:
  "tryP g m K h = (case m K h of
      (Ret (Inl d), h') \<Rightarrow> (Err (g d), h')
    | (Ret (Inr x), h') \<Rightarrow> (Ret x, h')
    | (Err e, h') \<Rightarrow> (Err e, h')
    | (Panic, h') \<Rightarrow> (Panic, h')
    | (Exit n, h') \<Rightarrow> (Exit n, h')
    | (Execed, h') \<Rightarrow> (Execed, h')
    | (Hangs, h') \<Rightarrow> (Hangs, h'))"
  by (auto simp: tryP_def prog_simps split: sum.splits prod.splits res.splits)

lemma execP_run [prog_simps]:
  "execP c K h = (case k_call K h c of
      Inl e \<Rightarrow> (Ret e, h @ [(c, Inl e)]) | Inr n \<Rightarrow> (Execed, h @ [(c, Inr n)]))"
  by (simp add: execP_def)

lemma open_stream_run [prog_simps]:
  "open_stream p K h = (let r = k_call K h (Open_read p); h' = h @ [(Open_read p, r)] in
     (Ret (case r of Inl e \<Rightarrow> Inl e | Inr _ \<Rightarrow> Inr (k_read K h' p)), h'))"
  by (simp add: open_stream_def prog_simps Let_def split: sum.splits)

lemma read_to_string_run [prog_simps]:
  "read_to_string p K h = (let r = k_call K h (Open_read p); h' = h @ [(Open_read p, r)] in
     (Ret (case r of Inl e \<Rightarrow> Inl e | Inr _ \<Rightarrow> stream_to_string (k_read K h' p)), h'))"
  by (simp add: read_to_string_def prog_simps Let_def split: sum.splits)

lemma read_link_run [prog_simps]:
  "read_link p K h = (Ret (k_link K h p), h @ [(Read_link p, map_sum id (\<lambda>_. 0) (k_link K h p))])"
  by (simp add: read_link_def prog_simps)

section \<open>Monad laws\<close>

lemma bind_ret [simp]: "bindP (retP x) f = f x"
  by (simp add: bindP_def retP_def)

lemma bind_throw [simp]: "bindP (throwP e) f = throwP e"
  by (simp add: bindP_def throwP_def)

lemma bind_assoc: "bindP (bindP m f) g = bindP m (\<lambda>x. bindP (f x) g)"
  by (auto simp: bindP_def fun_eq_iff split: prod.splits res.splits)

section \<open>Inversion\<close>

lemma bindP_Ret [prog_inv]:
  "bindP m f K h = (Ret y, h') \<longleftrightarrow> (\<exists>x h1. m K h = (Ret x, h1) \<and> f x K h1 = (Ret y, h'))"
  by (auto simp: bindP_def split: prod.splits res.splits)

lemma bindP_Err [prog_inv]:
  "bindP m f K h = (Err e, h') \<longleftrightarrow>
     m K h = (Err e, h') \<or> (\<exists>x h1. m K h = (Ret x, h1) \<and> f x K h1 = (Err e, h'))"
  by (auto simp: bindP_def split: prod.splits res.splits)

lemma bindP_Execed [prog_inv]:
  "bindP m f K h = (Execed, h') \<longleftrightarrow>
     m K h = (Execed, h') \<or> (\<exists>x h1. m K h = (Ret x, h1) \<and> f x K h1 = (Execed, h'))"
  by (auto simp: bindP_def split: prod.splits res.splits)

lemma bindP_Exit [prog_inv]:
  "bindP m f K h = (Exit n, h') \<longleftrightarrow>
     m K h = (Exit n, h') \<or> (\<exists>x h1. m K h = (Ret x, h1) \<and> f x K h1 = (Exit n, h'))"
  by (auto simp: bindP_def split: prod.splits res.splits)

lemma bindP_Panic [prog_inv]:
  "bindP m f K h = (Panic, h') \<longleftrightarrow>
     m K h = (Panic, h') \<or> (\<exists>x h1. m K h = (Ret x, h1) \<and> f x K h1 = (Panic, h'))"
  by (auto simp: bindP_def split: prod.splits res.splits)

lemma bindP_Hangs [prog_inv]:
  "bindP m f K h = (Hangs, h') \<longleftrightarrow>
     m K h = (Hangs, h') \<or> (\<exists>x h1. m K h = (Ret x, h1) \<and> f x K h1 = (Hangs, h'))"
  by (auto simp: bindP_def split: prod.splits res.splits)

lemma map_errP_inv [prog_inv]:
  "map_errP g m K h = (Ret x, h') \<longleftrightarrow> m K h = (Ret x, h')"
  "map_errP g m K h = (Err f, h') \<longleftrightarrow> (\<exists>e. m K h = (Err e, h') \<and> f = g e)"
  "map_errP g m K h = (Execed, h') \<longleftrightarrow> m K h = (Execed, h')"
  "map_errP g m K h = (Exit n, h') \<longleftrightarrow> m K h = (Exit n, h')"
  "map_errP g m K h = (Panic, h') \<longleftrightarrow> m K h = (Panic, h')"
  "map_errP g m K h = (Hangs, h') \<longleftrightarrow> m K h = (Hangs, h')"
  by (auto simp: map_errP_def split: prod.splits res.splits)

lemma attemptP_inv [prog_inv]:
  "attemptP m K h = (Ret r, h') \<longleftrightarrow>
     (\<exists>e. m K h = (Err e, h') \<and> r = Inl e) \<or> (\<exists>x. m K h = (Ret x, h') \<and> r = Inr x)"
  "attemptP m K h \<noteq> (Err f, h')"
  "attemptP m K h = (Execed, h') \<longleftrightarrow> m K h = (Execed, h')"
  "attemptP m K h = (Exit n, h') \<longleftrightarrow> m K h = (Exit n, h')"
  "attemptP m K h = (Panic, h') \<longleftrightarrow> m K h = (Panic, h')"
  "attemptP m K h = (Hangs, h') \<longleftrightarrow> m K h = (Hangs, h')"
  by (auto simp: attemptP_def split: prod.splits res.splits)

lemma retP_inv [prog_inv]:
  "retP x K h = (Ret y, h') \<longleftrightarrow> x = y \<and> h' = h"
  "retP x K h \<noteq> (Err e', h')" "retP x K h \<noteq> (Execed, h')" "retP x K h \<noteq> (Exit n', h')"
  "retP x K h \<noteq> (Panic, h')" "retP x K h \<noteq> (Hangs, h')"
  "throwP e K h = (r', h') \<longleftrightarrow> r' = Err e \<and> h' = h"
  "panicP K h = (r'', h') \<longleftrightarrow> r'' = Panic \<and> h' = h"
  "exitP n K h = (r''', h') \<longleftrightarrow> r''' = Exit n \<and> h' = h"
  by (auto simp: prog_simps)

lemma askP_inv [prog_inv]:
  "askP q K h = (Ret x, h') \<longleftrightarrow> q K h = x \<and> h' = h"
  "askP q K h \<noteq> (Err e, h')" "askP q K h \<noteq> (Execed, h')" "askP q K h \<noteq> (Exit n, h')"
  "askP q K h \<noteq> (Panic, h')" "askP q K h \<noteq> (Hangs, h')"
  by (auto simp: prog_simps)

lemma call_inv [prog_inv]:
  "call c K h = (Ret r, h') \<longleftrightarrow> k_call K h c = r \<and> h' = h @ [(c, r)]"
  "call c K h \<noteq> (Err e, h')" "call c K h \<noteq> (Execed, h')" "call c K h \<noteq> (Exit n, h')"
  "call c K h \<noteq> (Panic, h')" "call c K h \<noteq> (Hangs, h')"
  by (auto simp: prog_simps)

lemma query_inv [prog_inv]:
  "query c q K h = (Ret r, h') \<longleftrightarrow> q K h = r \<and> h' = h @ [(c, map_sum id (\<lambda>_. 0) r)]"
  "query c q K h \<noteq> (Err e, h')" "query c q K h \<noteq> (Execed, h')" "query c q K h \<noteq> (Exit n, h')"
  "query c q K h \<noteq> (Panic, h')" "query c q K h \<noteq> (Hangs, h')"
  by (auto simp: prog_simps)

lemma tryP_inv [prog_inv]:
  "tryP g m K h = (Ret x, h') \<longleftrightarrow> m K h = (Ret (Inr x), h')"
  "tryP g m K h = (Err e, h') \<longleftrightarrow> m K h = (Err e, h') \<or> (\<exists>d. m K h = (Ret (Inl d), h') \<and> e = g d)"
  "tryP g m K h = (Execed, h') \<longleftrightarrow> m K h = (Execed, h')"
  "tryP g m K h = (Exit n, h') \<longleftrightarrow> m K h = (Exit n, h')"
  "tryP g m K h = (Panic, h') \<longleftrightarrow> m K h = (Panic, h')"
  "tryP g m K h = (Hangs, h') \<longleftrightarrow> m K h = (Hangs, h')"
  by (auto simp: tryP_run split: prod.splits res.splits sum.splits)

lemma fromSum_inv [prog_inv]:
  "fromSum r K h = (Ret x, h') \<longleftrightarrow> r = Inr x \<and> h' = h"
  "fromSum r K h = (Err e, h') \<longleftrightarrow> r = Inl e \<and> h' = h"
  "fromSum r K h \<noteq> (Execed, h')" "fromSum r K h \<noteq> (Exit n, h')"
  "fromSum r K h \<noteq> (Panic, h')" "fromSum r K h \<noteq> (Hangs, h')"
  by (auto simp: prog_simps split: sum.splits)

lemma execP_inv [prog_inv]:
  "execP c K h = (Ret e, h') \<longleftrightarrow> k_call K h c = Inl e \<and> h' = h @ [(c, Inl e)]"
  "execP c K h = (Execed, h') \<longleftrightarrow> (\<exists>n. k_call K h c = Inr n \<and> h' = h @ [(c, Inr n)])"
  "execP c K h \<noteq> (Err f, h')" "execP c K h \<noteq> (Exit m, h')"
  "execP c K h \<noteq> (Panic, h')" "execP c K h \<noteq> (Hangs, h')"
  by (auto simp: prog_simps split: sum.splits)

section \<open>Which events a program emits\<close>

definition emits :: "(event \<Rightarrow> bool) \<Rightarrow> ('a, 'e) prog \<Rightarrow> bool" where
  "emits P m \<longleftrightarrow> (\<forall>K h. \<exists>s. snd (m K h) = h @ s \<and> list_all P s)"

lemma emitsI: "(\<And>K h. \<exists>s. snd (m K h) = h @ s \<and> list_all P s) \<Longrightarrow> emits P m"
  by (simp add: emits_def)

lemma emitsD: "emits P m \<Longrightarrow> m K h = (r, h') \<Longrightarrow> \<exists>s. h' = h @ s \<and> list_all P s"
  unfolding emits_def by (metis snd_conv)

lemma emits_mono: "emits P m \<Longrightarrow> (\<And>e. P e \<Longrightarrow> Q e) \<Longrightarrow> emits Q m"
  unfolding emits_def by (meson list_all_mono')

lemma emits_ret [emits_intros]: "emits P (retP x)"
  by (simp add: emits_def prog_simps)

lemma emits_throw [emits_intros]: "emits P (throwP e)"
  by (simp add: emits_def prog_simps)

lemma emits_panic [emits_intros]: "emits P panicP"
  by (simp add: emits_def prog_simps)

lemma emits_exit [emits_intros]: "emits P (exitP n)"
  by (simp add: emits_def prog_simps)

lemma emits_hang [emits_intros]: "emits P hangP"
  by (simp add: emits_def prog_simps)

lemma emits_ask [emits_intros]: "emits P (askP q)"
  by (simp add: emits_def prog_simps)

lemma emits_fromSum [emits_intros]: "emits P (fromSum r)"
  by (simp add: emits_def prog_simps split: sum.splits)

lemma emits_call [emits_intros]: "(\<And>r. P (c, r)) \<Longrightarrow> emits P (call c)"
  by (simp add: emits_def prog_simps)

lemma emits_query [emits_intros]: "(\<And>r. P (c, r)) \<Longrightarrow> emits P (query c q)"
  by (simp add: emits_def prog_simps)

lemma emits_exec [emits_intros]: "(\<And>r. P (c, r)) \<Longrightarrow> emits P (execP c)"
  by (simp add: emits_def prog_simps split: sum.splits)

lemma emits_bind [emits_intros]:
  assumes "emits P m" "\<And>x. emits P (f x)"
  shows "emits P (bindP m f)"
proof (rule emitsI)
  fix K h
  obtain r h1 where m: "m K h = (r, h1)" by fastforce
  with assms(1) obtain s where s: "h1 = h @ s" "list_all P s" by (blast dest: emitsD)
  show "\<exists>s. snd (bindP m f K h) = h @ s \<and> list_all P s"
  proof (cases "\<exists>x. r = Ret x")
    case True
    then obtain x where x: "r = Ret x" by blast
    obtain r2 h2 where f: "f x K h1 = (r2, h2)" by fastforce
    with assms(2) obtain t where "h2 = h1 @ t" "list_all P t" by (blast dest: emitsD)
    with m x f s show ?thesis by (simp add: bindP_run)
  next
    case False
    with m s show ?thesis by (cases r) (auto simp: bindP_run)
  qed
qed

lemma snd_map_errP: "snd (map_errP g m K h) = snd (m K h)"
  by (simp add: map_errP_def split: prod.split res.split)

lemma snd_attemptP: "snd (attemptP m K h) = snd (m K h)"
  by (simp add: attemptP_def split: prod.split res.split)

lemma emits_map_err [emits_intros]: "emits P m \<Longrightarrow> emits P (map_errP g m)"
  by (simp add: emits_def snd_map_errP)

lemma emits_attempt [emits_intros]: "emits P m \<Longrightarrow> emits P (attemptP m)"
  by (simp add: emits_def snd_attemptP)

lemma emits_try [emits_intros]: "emits P m \<Longrightarrow> emits P (tryP g m)"
  unfolding tryP_def by (intro emits_intros) (auto intro: emits_intros split: sum.splits)

lemma emits_if [emits_intros]: "(b \<Longrightarrow> emits P m) \<Longrightarrow> (\<not> b \<Longrightarrow> emits P n) \<Longrightarrow> emits P (if b then m else n)"
  by simp

lemma emits_sum [emits_intros]:
  "(\<And>x. r = Inl x \<Longrightarrow> emits P (f x)) \<Longrightarrow> (\<And>y. r = Inr y \<Longrightarrow> emits P (g y)) \<Longrightarrow> emits P (case_sum f g r)"
  by (cases r) auto

lemma emits_option [emits_intros]:
  "(r = None \<Longrightarrow> emits P m) \<Longrightarrow> (\<And>y. r = Some y \<Longrightarrow> emits P (g y)) \<Longrightarrow> emits P (case_option m g r)"
  by (cases r) auto

lemma emits_prod [emits_intros]:
  "(\<And>x y. r = (x, y) \<Longrightarrow> emits P (f x y)) \<Longrightarrow> emits P (case_prod f r)"
  by (cases r) auto

lemma emits_list [emits_intros]:
  "(r = [] \<Longrightarrow> emits P m) \<Longrightarrow> (\<And>x xs. r = x # xs \<Longrightarrow> emits P (g x xs)) \<Longrightarrow> emits P (case_list m g r)"
  by (cases r) auto

lemma emits_Let [emits_intros]: "(\<And>x. emits P (f x)) \<Longrightarrow> emits P (Let y f)"
  by simp

lemma emits_for [emits_intros]: "(\<And>x. x \<in> set xs \<Longrightarrow> emits P (f x)) \<Longrightarrow> emits P (forP f xs)"
  by (induction xs) (auto intro!: emits_intros)

lemma emits_fold [emits_intros]:
  "(\<And>x a. x \<in> set xs \<Longrightarrow> emits P (f x a)) \<Longrightarrow> emits P (foldP f xs a)"
  by (induction xs arbitrary: a) (auto intro!: emits_intros)

lemma emits_open_stream [emits_intros]: "(\<And>r. P (Open_read p, r)) \<Longrightarrow> emits P (open_stream p)"
  unfolding open_stream_def by (intro emits_intros)

lemma emits_read_to_string [emits_intros]:
  "(\<And>r. P (Open_read p, r)) \<Longrightarrow> emits P (read_to_string p)"
  unfolding read_to_string_def by (intro emits_intros)

lemma emits_read_link [emits_intros]: "(\<And>r. P (Read_link p, r)) \<Longrightarrow> emits P (read_link p)"
  unfolding read_link_def by (intro emits_intros)

section \<open>How a program can end\<close>

datatype outcome = O_ret | O_err | O_panic | O_exit | O_exec | O_hang

fun outcome_of :: "('a, 'e) res \<Rightarrow> outcome" where
  "outcome_of (Ret x) = O_ret"
| "outcome_of (Err e) = O_err"
| "outcome_of Panic = O_panic"
| "outcome_of (Exit n) = O_exit"
| "outcome_of Execed = O_exec"
| "outcome_of Hangs = O_hang"

definition ends_in :: "outcome set \<Rightarrow> ('a, 'e) prog \<Rightarrow> bool" where
  "ends_in S m \<longleftrightarrow> (\<forall>K h. outcome_of (fst (m K h)) \<in> S)"

lemma ends_inI: "(\<And>K h. outcome_of (fst (m K h)) \<in> S) \<Longrightarrow> ends_in S m"
  by (simp add: ends_in_def)

lemma ends_inD: "ends_in S m \<Longrightarrow> m K h = (r, h') \<Longrightarrow> outcome_of r \<in> S"
  unfolding ends_in_def by (metis fst_conv)

lemma ends_in_mono: "ends_in S m \<Longrightarrow> S \<subseteq> T \<Longrightarrow> ends_in T m"
  by (auto simp: ends_in_def)

lemma ends_ret [outcome_intros]: "O_ret \<in> S \<Longrightarrow> ends_in S (retP x)"
  by (simp add: ends_in_def prog_simps)

lemma ends_throw [outcome_intros]: "O_err \<in> S \<Longrightarrow> ends_in S (throwP e)"
  by (simp add: ends_in_def prog_simps)

lemma ends_panic [outcome_intros]: "O_panic \<in> S \<Longrightarrow> ends_in S panicP"
  by (simp add: ends_in_def prog_simps)

lemma ends_exit [outcome_intros]: "O_exit \<in> S \<Longrightarrow> ends_in S (exitP n)"
  by (simp add: ends_in_def prog_simps)

lemma ends_hang [outcome_intros]: "O_hang \<in> S \<Longrightarrow> ends_in S hangP"
  by (simp add: ends_in_def prog_simps)

lemma ends_ask [outcome_intros]: "O_ret \<in> S \<Longrightarrow> ends_in S (askP q)"
  by (simp add: ends_in_def prog_simps)

lemma ends_fromSum [outcome_intros]: "O_ret \<in> S \<Longrightarrow> O_err \<in> S \<Longrightarrow> ends_in S (fromSum r)"
  by (simp add: ends_in_def prog_simps split: sum.splits)

lemma ends_call [outcome_intros]: "O_ret \<in> S \<Longrightarrow> ends_in S (call c)"
  by (simp add: ends_in_def prog_simps)

lemma ends_query [outcome_intros]: "O_ret \<in> S \<Longrightarrow> ends_in S (query c q)"
  by (simp add: ends_in_def prog_simps)

lemma ends_exec [outcome_intros]: "O_ret \<in> S \<Longrightarrow> O_exec \<in> S \<Longrightarrow> ends_in S (execP c)"
  by (simp add: ends_in_def prog_simps split: sum.splits)

lemma ends_bind [outcome_intros]:
  assumes "ends_in (insert O_ret S) m" "\<And>x. ends_in S (f x)"
  shows "ends_in S (bindP m f)"
proof (rule ends_inI)
  fix K h
  obtain r h1 where m: "m K h = (r, h1)" by fastforce
  show "outcome_of (fst (bindP m f K h)) \<in> S"
    using assms(1) [THEN ends_inD, OF m] assms(2) m
    by (cases r) (auto simp: bindP_run ends_in_def)
qed

lemma outcome_map_errP: "outcome_of (fst (map_errP g m K h)) = outcome_of (fst (m K h))"
  by (simp add: map_errP_def split: prod.split res.split)

lemma outcome_attemptP:
  "outcome_of (fst (attemptP m K h)) =
     (if outcome_of (fst (m K h)) = O_err then O_ret else outcome_of (fst (m K h)))"
  by (simp add: attemptP_def split: prod.split res.split)

lemma ends_map_err [outcome_intros]: "ends_in S m \<Longrightarrow> ends_in S (map_errP g m)"
  by (simp add: ends_in_def outcome_map_errP)

lemma ends_attempt [outcome_intros]:
  "ends_in (insert O_err S) m \<Longrightarrow> O_ret \<in> S \<Longrightarrow> ends_in S (attemptP m)"
  unfolding ends_in_def outcome_attemptP by force

lemma ends_try [outcome_intros]:
  "ends_in (insert O_ret S) m \<Longrightarrow> O_ret \<in> S \<Longrightarrow> O_err \<in> S \<Longrightarrow> ends_in S (tryP g m)"
  unfolding tryP_def by (rule ends_bind) (auto intro: outcome_intros split: sum.splits)

lemma ends_if [outcome_intros]:
  "(b \<Longrightarrow> ends_in S m) \<Longrightarrow> (\<not> b \<Longrightarrow> ends_in S n) \<Longrightarrow> ends_in S (if b then m else n)"
  by simp

lemma ends_sum [outcome_intros]:
  "(\<And>x. r = Inl x \<Longrightarrow> ends_in S (f x)) \<Longrightarrow> (\<And>y. r = Inr y \<Longrightarrow> ends_in S (g y)) \<Longrightarrow>
   ends_in S (case_sum f g r)"
  by (cases r) auto

lemma ends_option [outcome_intros]:
  "(r = None \<Longrightarrow> ends_in S m) \<Longrightarrow> (\<And>y. r = Some y \<Longrightarrow> ends_in S (g y)) \<Longrightarrow>
   ends_in S (case_option m g r)"
  by (cases r) auto

lemma ends_prod [outcome_intros]:
  "(\<And>x y. r = (x, y) \<Longrightarrow> ends_in S (f x y)) \<Longrightarrow> ends_in S (case_prod f r)"
  by (cases r) auto

lemma ends_list [outcome_intros]:
  "(r = [] \<Longrightarrow> ends_in S m) \<Longrightarrow> (\<And>x xs. r = x # xs \<Longrightarrow> ends_in S (g x xs)) \<Longrightarrow>
   ends_in S (case_list m g r)"
  by (cases r) auto

lemma ends_Let [outcome_intros]: "(\<And>x. ends_in S (f x)) \<Longrightarrow> ends_in S (Let y f)"
  by simp

lemma ends_for [outcome_intros]:
  "O_ret \<in> S \<Longrightarrow> (\<And>x. ends_in S (f x)) \<Longrightarrow> ends_in S (forP f xs)"
  by (induction xs) (auto intro!: outcome_intros intro: ends_in_mono)

lemma ends_fold [outcome_intros]:
  "O_ret \<in> S \<Longrightarrow> (\<And>x a. ends_in S (f x a)) \<Longrightarrow> ends_in S (foldP f xs a)"
  by (induction xs arbitrary: a) (auto intro!: outcome_intros intro: ends_in_mono)

lemma ends_open_stream [outcome_intros]: "O_ret \<in> S \<Longrightarrow> ends_in S (open_stream p)"
  by (simp add: ends_in_def prog_simps Let_def)

lemma ends_read_to_string [outcome_intros]: "O_ret \<in> S \<Longrightarrow> ends_in S (read_to_string p)"
  by (simp add: ends_in_def prog_simps Let_def)

lemma ends_read_link [outcome_intros]: "O_ret \<in> S \<Longrightarrow> ends_in S (read_link p)"
  by (simp add: ends_in_def prog_simps)

text \<open>A library function either returns or fails: it never ends the process, panics or hangs.\<close>

abbreviation plain :: "('a, 'e) prog \<Rightarrow> bool" where
  "plain m \<equiv> ends_in {O_ret, O_err} m"

lemma plain_cases:
  assumes "plain m"
  obtains (Ret) x h' where "m K h = (Ret x, h')" | (Err) e h' where "m K h = (Err e, h')"
proof -
  obtain r h' where m: "m K h = (r, h')" by fastforce
  with assms have "outcome_of r \<in> {O_ret, O_err}" by (blast dest: ends_inD)
  with m that show thesis by (cases r) auto
qed

section \<open>Scopes\<close>

lemma finallyP_run [prog_simps]:
  "finallyP m d K h = (case m K h of
      (Ret x, h') \<Rightarrow> (Ret x, snd (d K h'))
    | (Err e, h') \<Rightarrow> (Err e, snd (d K h'))
    | (Panic, h') \<Rightarrow> (Panic, snd (d K h'))
    | (Exit n, h') \<Rightarrow> (Exit n, h')
    | (Execed, h') \<Rightarrow> (Execed, h')
    | (Hangs, h') \<Rightarrow> (Hangs, h'))"
  by (simp add: finallyP_def)

lemma finallyP_inv [prog_inv]:
  "finallyP m d K h = (Ret x, h') \<longleftrightarrow> (\<exists>h1. m K h = (Ret x, h1) \<and> h' = snd (d K h1))"
  "finallyP m d K h = (Err e, h') \<longleftrightarrow> (\<exists>h1. m K h = (Err e, h1) \<and> h' = snd (d K h1))"
  "finallyP m d K h = (Panic, h') \<longleftrightarrow> (\<exists>h1. m K h = (Panic, h1) \<and> h' = snd (d K h1))"
  "finallyP m d K h = (Exit n, h') \<longleftrightarrow> m K h = (Exit n, h')"
  "finallyP m d K h = (Execed, h') \<longleftrightarrow> m K h = (Execed, h')"
  "finallyP m d K h = (Hangs, h') \<longleftrightarrow> m K h = (Hangs, h')"
  by (auto simp: finallyP_def split: prod.splits res.splits)

lemma emits_finally [emits_intros]:
  assumes "emits P m" "emits P d"
  shows "emits P (finallyP m d)"
proof (rule emitsI)
  fix K h
  obtain r h1 where m: "m K h = (r, h1)" by fastforce
  with assms(1) obtain s where s: "h1 = h @ s" "list_all P s" by (blast dest: emitsD)
  obtain r2 h2 where d: "d K h1 = (r2, h2)" by fastforce
  with assms(2) obtain t where "h2 = h1 @ t" "list_all P t" by (blast dest: emitsD)
  with m d s show "\<exists>s. snd (finallyP m d K h) = h @ s \<and> list_all P s"
    by (cases r) (auto simp: finallyP_run)
qed

lemma ends_finally [outcome_intros]: "ends_in S m \<Longrightarrow> ends_in S (finallyP m d)"
  unfolding ends_in_def finallyP_def
  by (auto split: prod.splits res.splits) (metis fst_conv outcome_of.simps)+

section \<open>Loops\<close>

text \<open>
  \<open>loop_fuel n\<close> is the same loop cut after \<open>n\<close> rounds. It is executable, more rounds never
  change a result, and the loop hangs exactly when no number of rounds is enough.
\<close>

fun loop_fuel :: "nat \<Rightarrow> ('s \<Rightarrow> ('s + 'a, 'e) prog) \<Rightarrow> kernel \<Rightarrow> 's \<Rightarrow> hist \<Rightarrow> (('a, 'e) res \<times> hist) option" where
  "loop_fuel 0 body K s h = None"
| "loop_fuel (Suc n) body K s h = (case body s K h of (r, h') \<Rightarrow> (case r of
      Ret v \<Rightarrow> (case v of Inl s' \<Rightarrow> loop_fuel n body K s' h' | Inr x \<Rightarrow> Some (Ret x, h'))
    | Err e \<Rightarrow> Some (Err e, h')
    | Panic \<Rightarrow> Some (Panic, h')
    | Exit n \<Rightarrow> Some (Exit n, h')
    | Execed \<Rightarrow> Some (Execed, h')
    | Hangs \<Rightarrow> Some (Hangs, h')))"

lemma loop_fuel_run: "loop_fuel n body K s h = Some r \<Longrightarrow> loop_run body K s h = Some r"
proof (induction n arbitrary: s h)
  case (Suc n)
  then show ?case
    by (subst loop_run.simps) (auto split: prod.splits res.splits sum.splits)
qed simp

lemma loop_run_fuel:
  fixes body :: "'s \<Rightarrow> ('s + 'a, 'e) prog"
  shows "loop_run body K s h = Some r \<Longrightarrow> \<exists>n. loop_fuel n body K s h = Some r"
proof (rule loop_run.raw_induct [where P = "\<lambda>body K s h r. \<exists>n. loop_fuel n body K s h = Some r", rotated])
  fix f :: "('s \<Rightarrow> ('s + 'a, 'e) prog) \<Rightarrow> kernel \<Rightarrow> 's \<Rightarrow> hist \<Rightarrow> (('a, 'e) res \<times> hist) option"
  fix body K s h r
  assume IH: "\<And>body K s h r. f body K s h = Some r \<Longrightarrow> \<exists>n. loop_fuel n body K s h = Some r"
  assume run: "(case body s K h of (r, h') \<Rightarrow> (case r of
      Ret v \<Rightarrow> (case v of Inl s' \<Rightarrow> f body K s' h' | Inr x \<Rightarrow> Some (Ret x, h'))
    | Err e \<Rightarrow> Some (Err e, h') | Panic \<Rightarrow> Some (Panic, h') | Exit n \<Rightarrow> Some (Exit n, h')
    | Execed \<Rightarrow> Some (Execed, h') | Hangs \<Rightarrow> Some (Hangs, h'))) = Some r"
  obtain q h' where b: "body s K h = (q, h')" by fastforce
  show "\<exists>n. loop_fuel n body K s h = Some r"
  proof (cases "\<exists>s'. q = Ret (Inl s')")
    case True
    then obtain s' where "q = Ret (Inl s')" by blast
    with run b IH [of body K s' h' r] obtain n where "loop_fuel n body K s' h' = Some r" by auto
    with b \<open>q = Ret (Inl s')\<close> show ?thesis by (intro exI [of _ "Suc n"]) simp
  next
    case False
    with run b show ?thesis
      by (intro exI [of _ "Suc 0"]) (auto split: res.splits sum.splits)
  qed
qed

lemma loop_run_None: "loop_run body K s h = None \<longleftrightarrow> (\<forall>n. loop_fuel n body K s h = None)"
  using loop_fuel_run loop_run_fuel by (metis not_None_eq)

lemma loopP_fuel: "loop_fuel n body K s h = Some r \<Longrightarrow> loopP body s K h = r"
  by (simp add: loopP_def loop_fuel_run)

text \<open>Invariants: kept by every round that goes on, they hold where the last round starts;
  \<open>map_res Inr id\<close> is the way in which that round ends.\<close>

lemma loop_fuel_invariant:
  assumes inv: "\<And>s h s' h'. I s h \<Longrightarrow> body s K h = (Ret (Inl s'), h') \<Longrightarrow> I s' h'"
  shows "I s h \<Longrightarrow> loop_fuel n body K s h = Some (r, h') \<Longrightarrow>
    \<exists>s1 h1. I s1 h1 \<and> body s1 K h1 = (map_res Inr id r, h')"
proof (induction n arbitrary: s h)
  case (Suc n)
  obtain q h2 where b: "body s K h = (q, h2)" by fastforce
  show ?case
  proof (cases "\<exists>s'. q = Ret (Inl s')")
    case True
    then obtain s' where q: "q = Ret (Inl s')" by blast
    with Suc.prems b have "loop_fuel n body K s' h2 = Some (r, h')" by simp
    with Suc.IH inv Suc.prems(1) b q show ?thesis by blast
  next
    case False
    with Suc.prems b show ?thesis
      by (intro exI [of _ s] exI [of _ h]) (auto split: res.splits sum.splits)
  qed
qed simp

lemma loopP_invariant:
  assumes "loopP body s K h = (r, h')" "r \<noteq> Hangs" "I s h"
    and "\<And>s h s' h'. I s h \<Longrightarrow> body s K h = (Ret (Inl s'), h') \<Longrightarrow> I s' h'"
  shows "\<exists>s1 h1. I s1 h1 \<and> body s1 K h1 = (map_res Inr id r, h')"
proof -
  from assms(1,2) have "loop_run body K s h = Some (r, h')"
    by (auto simp: loopP_def split: option.splits)
  then obtain n where "loop_fuel n body K s h = Some (r, h')"
    by (blast dest: loop_run_fuel)
  from loop_fuel_invariant [of I, OF assms(4) assms(3) this] show ?thesis .
qed

text \<open>The states in which a round of the loop can start, and the histories of those moments.\<close>

inductive rounds :: "('s \<Rightarrow> ('s + 'a, 'e) prog) \<Rightarrow> kernel \<Rightarrow> 's \<Rightarrow> hist \<Rightarrow> 's \<Rightarrow> hist \<Rightarrow> bool"
  for body K s h where
  rounds_start: "rounds body K s h s h"
| rounds_next: "rounds body K s h s1 h1 \<Longrightarrow> body s1 K h1 = (Ret (Inl s2), h2) \<Longrightarrow> rounds body K s h s2 h2"

lemma loopP_rounds:
  assumes "loopP body s K h = (r, h')" "r \<noteq> Hangs"
  shows "\<exists>s1 h1. rounds body K s h s1 h1 \<and> body s1 K h1 = (map_res Inr id r, h')"
  using assms by (rule loopP_invariant) (auto intro: rounds.intros)

lemma rounds_fuel:
  "rounds body K s h s1 h1 \<Longrightarrow> \<exists>n. \<forall>m. loop_fuel (n + m) body K s h = loop_fuel m body K s1 h1"
proof (induction rule: rounds.induct)
  case rounds_start
  show ?case by (rule exI [of _ 0]) simp
next
  case (rounds_next s1 h1 s2 h2)
  then obtain n where n: "loop_fuel (n + m) body K s h = loop_fuel m body K s1 h1" for m by blast
  have "loop_fuel (Suc n + m) body K s h = loop_fuel m body K s2 h2" for m
    using n [of "Suc m"] rounds_next.hyps by simp
  then show ?case by blast
qed

lemma rounds_run:
  assumes "rounds body K s h s1 h1" "body s1 K h1 = (map_res Inr id r, h')"
  shows "loopP body s K h = (r, h')"
proof -
  from rounds_fuel [OF assms(1)] obtain n where
    "loop_fuel (n + Suc 0) body K s h = loop_fuel (Suc 0) body K s1 h1" by blast
  also have "\<dots> = Some (r, h')" using assms(2) by (cases r) auto
  finally show ?thesis by (rule loopP_fuel)
qed

lemma loopP_iff:
  "r \<noteq> Hangs \<Longrightarrow> loopP body s K h = (r, h') \<longleftrightarrow>
     (\<exists>s1 h1. rounds body K s h s1 h1 \<and> body s1 K h1 = (map_res Inr id r, h'))"
  by (blast dest: loopP_rounds intro: rounds_run)

lemma loopP_unfold:
  "loopP body s K h = (case body s K h of
      (Ret (Inl s'), h') \<Rightarrow> (case loop_run body K s' h' of None \<Rightarrow> (Hangs, h) | Some r \<Rightarrow> r)
    | (Ret (Inr x), h') \<Rightarrow> (Ret x, h')
    | (Err e, h') \<Rightarrow> (Err e, h')
    | (Panic, h') \<Rightarrow> (Panic, h')
    | (Exit n, h') \<Rightarrow> (Exit n, h')
    | (Execed, h') \<Rightarrow> (Execed, h')
    | (Hangs, h') \<Rightarrow> (Hangs, h'))"
  unfolding loopP_def by (subst loop_run.simps) (auto split: prod.splits res.splits sum.splits)

lemma emits_loop_fuel:
  "(\<And>s. emits P (body s)) \<Longrightarrow> loop_fuel n body K s h = Some (r, h') \<Longrightarrow>
   \<exists>t. h' = h @ t \<and> list_all P t"
proof (induction n arbitrary: s h)
  case (Suc n)
  obtain q h2 where b: "body s K h = (q, h2)" by fastforce
  from emitsD [OF Suc.prems(1) b] obtain t where t: "h2 = h @ t" "list_all P t" by blast
  show ?case
  proof (cases "\<exists>s'. q = Ret (Inl s')")
    case True
    then obtain s' where "q = Ret (Inl s')" by blast
    with Suc.prems b have "loop_fuel n body K s' h2 = Some (r, h')" by simp
    from Suc.IH [OF Suc.prems(1) this] t show ?thesis by auto
  next
    case False
    with Suc.prems b t show ?thesis by (auto split: res.splits sum.splits)
  qed
qed simp

lemma emits_loop [emits_intros]:
  assumes "\<And>s. emits P (body s)"
  shows "emits P (loopP body s)"
proof (rule emitsI)
  fix K h
  show "\<exists>t. snd (loopP body s K h) = h @ t \<and> list_all P t"
  proof (cases "loop_run body K s h")
    case None
    then show ?thesis by (simp add: loopP_def)
  next
    case (Some a)
    then obtain n where "loop_fuel n body K s h = Some a" by (blast dest: loop_run_fuel)
    with emits_loop_fuel [OF assms, where r = "fst a" and h' = "snd a"] Some show ?thesis
      by (simp add: loopP_def)
  qed
qed

lemma ends_loop_fuel:
  "(\<And>s. ends_in (insert O_ret S) (body s)) \<Longrightarrow>
   (\<And>s K h x h'. body s K h = (Ret (Inr x), h') \<Longrightarrow> O_ret \<in> S) \<Longrightarrow>
   loop_fuel n body K s h = Some (r, h') \<Longrightarrow> outcome_of r \<in> S"
proof (induction n arbitrary: s h)
  case (Suc n)
  obtain q h2 where b: "body s K h = (q, h2)" by fastforce
  from ends_inD [OF Suc.prems(1) b] have "outcome_of q \<in> insert O_ret S" .
  then show ?case
    using Suc.prems(3) Suc.IH [OF Suc.prems(1,2)] b Suc.prems(2) [of s K h _ h2]
    by (cases q) (auto split: sum.splits)
qed simp
text \<open>A loop whose rounds keep an invariant and decrease a measure ends within that many rounds.\<close>

lemma loop_fuel_measure:
  assumes step: "\<And>s h s' h'. I s h \<Longrightarrow> body s K h = (Ret (Inl s'), h') \<Longrightarrow> I s' h' \<and> f s' h' < (f s h :: nat)"
  shows "I s h \<Longrightarrow> f s h < n \<Longrightarrow> \<exists>r. loop_fuel n body K s h = Some r"
proof (induction n arbitrary: s h)
  case (Suc n)
  obtain q h2 where b: "body s K h = (q, h2)" by fastforce
  show ?case
  proof (cases "\<exists>s'. q = Ret (Inl s')")
    case True
    then obtain s' where q: "q = Ret (Inl s')" by blast
    with step [of s h s' h2] Suc.prems b have "I s' h2" "f s' h2 < n" by auto
    from Suc.IH [OF this] b q show ?thesis by simp
  next
    case False
    with b show ?thesis by (cases q) (auto split: sum.splits)
  qed
qed simp

text \<open>When no round adds more than one event of a kind, the rounds bound their number.\<close>

lemma loop_fuel_count:
  assumes one: "\<And>s h r h'. body s K h = (r, h') \<Longrightarrow> \<exists>t. h' = h @ t \<and> length (filter P t) \<le> 1"
  shows "loop_fuel n body K s h = Some (r, h') \<Longrightarrow> \<exists>t. h' = h @ t \<and> length (filter P t) \<le> n"
proof (induction n arbitrary: s h)
  case (Suc n)
  obtain q h2 where b: "body s K h = (q, h2)" by fastforce
  from one [OF b] obtain t where t: "h2 = h @ t" "length (filter P t) \<le> 1" by blast
  show ?case
  proof (cases "\<exists>s'. q = Ret (Inl s')")
    case True
    then obtain s' where "q = Ret (Inl s')" by blast
    with Suc.prems b have "loop_fuel n body K s' h2 = Some (r, h')" by simp
    from Suc.IH [OF this] t show ?thesis by force
  next
    case False
    with Suc.prems b have "h' = h2" by (auto split: res.splits sum.splits)
    with t show ?thesis by force
  qed
qed simp

lemma ends_loop [outcome_intros]:
  assumes "O_hang \<in> S" "\<And>s. ends_in (insert O_ret S) (body s)"
    "\<And>s K h x h'. body s K h = (Ret (Inr x), h') \<Longrightarrow> O_ret \<in> S"
  shows "ends_in S (loopP body s)"
proof (rule ends_inI)
  fix K h
  show "outcome_of (fst (loopP body s K h)) \<in> S"
  proof (cases "loop_run body K s h")
    case None
    then show ?thesis using assms(1) by (simp add: loopP_def)
  next
    case (Some a)
    then obtain n where "loop_fuel n body K s h = Some a" by (blast dest: loop_run_fuel)
    with ends_loop_fuel [OF assms(2,3), where r = "fst a" and h' = "snd a"] Some show ?thesis
      by (simp add: loopP_def)
  qed
qed

end
