(* ===== verification/Paths.thy ===== *)
theory Paths
  imports Prog_Logic
begin

text \<open>
  Where cntr looks and where it mounts: the base directory of \<open>paths.rs\<close> and the procfs
  root of \<open>procfs::get_path\<close>. Both are functions of the environment (and the effective
  user), so they are evaluated at a kernel and a history.
\<close>

definition CNTR_BASE_DIR_ENV :: string where
  "CNTR_BASE_DIR_ENV = ''CNTR_BASE_DIR''"

definition DEFAULT_CNTR_BASE_DIR :: string where
  "DEFAULT_CNTR_BASE_DIR = ''/var/lib/cntr''"

definition get_base_dir :: "kernel \<Rightarrow> hist \<Rightarrow> string" where
  "get_base_dir K h =
     (case env_var K CNTR_BASE_DIR_ENV of
        Some dir \<Rightarrow> dir
      | None \<Rightarrow>
        if k_euid K h = 0 then DEFAULT_CNTR_BASE_DIR
        else (case env_var K ''XDG_RUNTIME_DIR'' of
            Some runtime_dir \<Rightarrow> path_join runtime_dir ''cntr''
          | None \<Rightarrow> (case env_var K ''HOME'' of
              Some home \<Rightarrow> path_join (path_join (path_join home ''.local'') ''share'') ''cntr''
            | None \<Rightarrow> DEFAULT_CNTR_BASE_DIR)))"

definition get_path :: "kernel \<Rightarrow> string" where
  "get_path K = (case var_os K ''CNTR_PROC'' of Some p \<Rightarrow> p | None \<Rightarrow> ''/proc'')"

definition pid_dir :: "kernel \<Rightarrow> pid \<Rightarrow> string" where
  "pid_dir K p = path_join (get_path K) (show_int p)"

lemma show_int_no_slash: "SLASH \<notin> set (show_int i)"
  by (auto simp: show_int_def dest: show_nat_no_char [THEN notE, rotated])

lemma show_int_not_Nil [simp]: "show_int i \<noteq> []"
  by (simp add: show_int_def)

lemma show_int_relative: "\<not> is_absolute (show_int i)"
  using show_int_no_slash [of i] by (cases "show_int i") (auto simp: is_absolute_def)

lemma pid_dir_default: "k_env K ''CNTR_PROC'' = None \<Longrightarrow> pid_dir K p = ''/proc/'' @ show_int p"
  by (simp add: pid_dir_def get_path_def var_os_def path_join_def show_int_relative)

end
