(* ===== verification/Sample.thy ===== *)
theory Sample
  imports Prog_Logic
begin

text \<open>
  A concrete kernel for the worked examples: every call succeeds, writes are complete,
  files are empty, the clock stands still, and every query for data fails with \<open>EBADF\<close>. The examples override the
  fields they are about.
\<close>

abbreviation (input) EBADF :: io_error where "EBADF \<equiv> Os 9"

definition sample_call :: "hist \<Rightarrow> call \<Rightarrow> io_error + nat" where
  "sample_call h c = Inr (case c of Write f d \<Rightarrow> length d | _ \<Rightarrow> 0)"

definition sample_flags :: tty_flags where
  "sample_flags = \<lparr>IGNBRK = 1, BRKINT = 2, PARMRK = 8, ISTRIP = 0x20, INLCR = 0x40, IGNCR = 0x80,
     ICRNL = 0x100, IXON = 0x400, OPOST = 1, ECHO = 8, ECHONL = 0x40, ICANON = 2, ISIG = 1,
     IEXTEN = 0x8000, CSIZE = 0x30, PARENB = 0x100, CS8 = 0x30\<rparr>"

definition sample :: kernel where
  "sample = \<lparr>k_call = sample_call,
     k_pair = (\<lambda>h c. Inr (10, 11)),
     k_read = (\<lambda>h p. ([], None)),
     k_link = (\<lambda>h p. Inl ENOENT),
     k_stat = (\<lambda>h p. Inl ENOENT),
     k_dir = (\<lambda>h p. Inl ENOENT),
     k_entries = (\<lambda>h f. Inl EBADF),
     k_fdread = (\<lambda>h f n. Inl EBADF),
     k_fdall = (\<lambda>h f. Inl EBADF),
     k_poll = (\<lambda>h. Inl EBADF),
     k_wait = (\<lambda>h p. Inl EBADF),
     k_recv = (\<lambda>h f n. Inl EBADF),
     k_pwnam = (\<lambda>h u n. Pw_none),
     k_termios = (\<lambda>h f. Inl EBADF),
     k_winsize = (\<lambda>h f. Inl EBADF),
     k_ptsname = (\<lambda>h f. Inl EBADF),
     k_getpid = (\<lambda>h. 100),
     k_uid = (\<lambda>h. 0),
     k_gid = (\<lambda>h. 0),
     k_euid = (\<lambda>h. 0),
     k_env = (\<lambda>n. None),
     k_types = (\<lambda>t. None),
     k_lookup = (\<lambda>h c ts. Inl ''no such container''),
     k_pid = (\<lambda>i. if i = 0 then None else Some i),
     k_flags = sample_flags,
     k_named_signal = (\<lambda>s. if 0 < s \<and> s < 32 then Some (nat s) else None),
     k_strerror = (\<lambda>e. ''Bad file descriptor (os error 9)''),
     k_debug_error = (\<lambda>e. ''Os''),
     k_debug_status = (\<lambda>st. ''WaitStatus''),
     k_now = (\<lambda>h. 0),
     k_fdstream = (\<lambda>h f. ([], None)),
     k_backtrace = (\<lambda>h. None),
     k_show_secs = (\<lambda>d. ''30.00'')\<rparr>"

lemmas sample_simps = sample_def sample_call_def sample_flags_def

end
