(* ===== verification/Cgroup.thy ===== *)
theory Cgroup
  imports Paths Sample
begin

text \<open>
  \<open>cgroup.rs\<close>: the scans of \<open>/proc/cgroups\<close>, \<open>/proc/self/mountinfo\<close> and
  \<open>/proc/<pid>/cgroup\<close>, the four managers and the factory that picks one. The trait
  \<open>CgroupManager\<close> is the locale \<open>cgroup_manager\<close>: its contract is what the callers rely on,
  and every manager of the code is an interpretation.
\<close>

section \<open>Model\<close>

datatype cgroup_error =
    Cgroup_Open string io_error
  | Cgroup_Read string io_error
  | Cgroup_WritePid string io_error

record cgroup_v1_manager =
  v1_procfs_path :: string

record cgroup_v2_manager =
  mount_path :: string
  v2_procfs_path :: string

datatype manager =
    HybridCgroupManager cgroup_v1_manager cgroup_v2_manager
  | CgroupV1Manager cgroup_v1_manager
  | CgroupV2Manager cgroup_v2_manager
  | NullCgroupManager

fun scan_subsystems :: "string \<Rightarrow> (io_error + string) list \<Rightarrow> string list \<Rightarrow> cgroup_error + string list" where
  "scan_subsystems path [] acc = Inr acc"
| "scan_subsystems path (Inl e # ls) acc = Inl (Cgroup_Read path e)"
| "scan_subsystems path (Inr line # ls) acc =
     (if prefix ''#'' line then scan_subsystems path ls acc
      else let fields = split_on TAB line in
        scan_subsystems path ls
          (if 4 \<le> length fields \<and> fields ! 3 \<noteq> ''0'' then acc @ [fields ! 0] else acc))"

definition get_subsystems :: "(string list, cgroup_error) prog" where
  "get_subsystems =
     (let path = ''/proc/cgroups'' in
      bindP (tryP (Cgroup_Open path) (open_stream path)) (\<lambda>st.
      fromSum (scan_subsystems path (reader_lines st) [])))"

text \<open>The options of one cgroup v1 mount; \<open>name=\<close> is stripped from named hierarchies.\<close>

definition option_name :: "string \<Rightarrow> string" where
  "option_name opt = (case strip_prefix ''name='' opt of None \<Rightarrow> opt | Some n \<Rightarrow> n)"

fun insert_options :: "string list \<Rightarrow> string \<Rightarrow> string list \<Rightarrow> (string \<rightharpoonup> string) \<Rightarrow> (string \<rightharpoonup> string)" where
  "insert_options subsystems mp [] m = m"
| "insert_options subsystems mp (opt # opts) m =
     insert_options subsystems mp opts
       (if option_name opt \<in> set subsystems then m(option_name opt \<mapsto> mp) else m)"

fun scan_mounts :: "string \<Rightarrow> string list \<Rightarrow> (io_error + string) list \<Rightarrow> (string \<rightharpoonup> string) \<Rightarrow>
    cgroup_error + (string \<rightharpoonup> string)" where
  "scan_mounts path subsystems [] m = Inr m"
| "scan_mounts path subsystems (Inl e # ls) m = Inl (Cgroup_Read path e)"
| "scan_mounts path subsystems (Inr line # ls) m =
     (let fields = split_on SP line in
      if length fields < 11 \<or> fields ! 9 \<noteq> ''cgroup'' then scan_mounts path subsystems ls m
      else scan_mounts path subsystems ls
        (insert_options subsystems (fields ! 4) (split_on (CHR '','') (fields ! 10)) m))"

definition get_mounts :: "(string \<rightharpoonup> string, cgroup_error) prog" where
  "get_mounts =
     bindP get_subsystems (\<lambda>subsystems.
     let path = ''/proc/self/mountinfo'' in
     bindP (tryP (Cgroup_Open path) (open_stream path)) (\<lambda>st.
     fromSum (scan_mounts path subsystems (reader_lines st) Map.empty)))"

fun first_mount :: "string list \<Rightarrow> (string \<rightharpoonup> string) \<Rightarrow> string option" where
  "first_mount [] m = None"
| "first_mount (c # cs) m = (case m c of Some path \<Rightarrow> Some path | None \<Rightarrow> first_mount cs m)"

definition cgroup_v1_path :: "string \<Rightarrow> (string \<rightharpoonup> string) \<Rightarrow> string option" where
  "cgroup_v1_path cgroup mountpoints =
     map_option (\<lambda>path. path_join (path_join path cgroup) ''tasks'')
       (first_mount (split_on (CHR '','') cgroup) mountpoints)"

definition cgroup_file :: "string \<Rightarrow> pid \<Rightarrow> string" where
  "cgroup_file procfs_path pid = path_join procfs_path (show_int pid @ ''/cgroup'')"

fun scan_v1 :: "string \<Rightarrow> (io_error + string) list \<Rightarrow> string list \<Rightarrow> cgroup_error + string list" where
  "scan_v1 path [] acc = Inr acc"
| "scan_v1 path (Inl e # ls) acc = Inl (Cgroup_Read path e)"
| "scan_v1 path (Inr line # ls) acc =
     (let fields = split_str '':/'' line in
      scan_v1 path ls (if 2 \<le> length fields then acc @ [fields ! 1] else acc))"

definition v1_get_cgroups :: "cgroup_v1_manager \<Rightarrow> pid \<Rightarrow> (string list, cgroup_error) prog" where
  "v1_get_cgroups self pid =
     (let path = cgroup_file (v1_procfs_path self) pid in
      bindP (tryP (Cgroup_Open path) (open_stream path)) (\<lambda>st.
      fromSum (scan_v1 path (reader_lines st) [])))"

definition v1_move_to :: "cgroup_v1_manager \<Rightarrow> pid \<Rightarrow> pid \<Rightarrow> (unit, cgroup_error) prog" where
  "v1_move_to self pid target_pid =
     bindP (v1_get_cgroups self target_pid) (\<lambda>cgroups.
     bindP get_mounts (\<lambda>mountpoints.
     forP (\<lambda>cgroup. case cgroup_v1_path cgroup mountpoints of
         None \<Rightarrow> retP ()
       | Some path \<Rightarrow> bindP (call (Create path)) (\<lambda>r. case r of
             Inr buffer \<Rightarrow> bindP (tryP (Cgroup_WritePid path) (call (Write_all buffer (show_int pid))))
                             (\<lambda>_. retP ())
           | Inl err \<Rightarrow> retP ())) cgroups))"

fun scan_v2 :: "string \<Rightarrow> (io_error + string) list \<Rightarrow> cgroup_error + string option" where
  "scan_v2 path [] = Inr None"
| "scan_v2 path (Inl e # ls) = Inl (Cgroup_Read path e)"
| "scan_v2 path (Inr line # ls) =
     (case strip_prefix ''0::'' line of Some stripped \<Rightarrow> Inr (Some stripped) | None \<Rightarrow> scan_v2 path ls)"

definition v2_get_cgroup_path :: "cgroup_v2_manager \<Rightarrow> pid \<Rightarrow> (string option, cgroup_error) prog" where
  "v2_get_cgroup_path self pid =
     (let path = cgroup_file (v2_procfs_path self) pid in
      bindP (tryP (Cgroup_Open path) (open_stream path)) (\<lambda>st.
      fromSum (scan_v2 path (reader_lines st))))"

definition procs_path :: "string \<Rightarrow> string \<Rightarrow> string" where
  "procs_path mount cgroup_path =
     path_join (path_join mount (trim_start_matches SLASH cgroup_path)) ''cgroup.procs''"

definition v2_move_to :: "cgroup_v2_manager \<Rightarrow> pid \<Rightarrow> pid \<Rightarrow> (unit, cgroup_error) prog" where
  "v2_move_to self pid target_pid =
     bindP (v2_get_cgroup_path self target_pid) (\<lambda>target_cgroup.
     case target_cgroup of
       None \<Rightarrow> retP ()
     | Some cgroup_path \<Rightarrow>
         bindP (call (Open_append (procs_path (mount_path self) cgroup_path))) (\<lambda>r. case r of
             Inr file \<Rightarrow> bindP (call (Write_all file (show_int pid))) (\<lambda>_. retP ())
           | Inl err \<Rightarrow> retP ()))"

definition hybrid_move_to ::
    "cgroup_v1_manager \<Rightarrow> cgroup_v2_manager \<Rightarrow> pid \<Rightarrow> pid \<Rightarrow> (unit, cgroup_error) prog" where
  "hybrid_move_to v1 v2 pid target_pid =
     bindP (attemptP (v2_move_to v2 pid target_pid)) (\<lambda>r. case r of
         Inl e \<Rightarrow> v1_move_to v1 pid target_pid
       | Inr _ \<Rightarrow> retP ())"

definition null_move_to :: "pid \<Rightarrow> pid \<Rightarrow> (unit, cgroup_error) prog" where
  "null_move_to pid target_pid = retP ()"

fun scan_managers :: "string \<Rightarrow> (io_error + string) list \<Rightarrow> bool \<Rightarrow> string option \<Rightarrow>
    cgroup_error + bool \<times> string option" where
  "scan_managers path [] has_v1 v2_mount = Inr (has_v1, v2_mount)"
| "scan_managers path (Inl e # ls) has_v1 v2_mount = Inl (Cgroup_Read path e)"
| "scan_managers path (Inr line # ls) has_v1 v2_mount =
     (let fields = split_on SP line in
      if length fields < 10 then scan_managers path ls has_v1 v2_mount
      else if fields ! 9 = ''cgroup'' then scan_managers path ls True v2_mount
      else if fields ! 9 = ''cgroup2'' then scan_managers path ls has_v1 (Some (fields ! 4))
      else scan_managers path ls has_v1 v2_mount)"

definition choose_manager :: "string \<Rightarrow> bool \<Rightarrow> string option \<Rightarrow> manager" where
  "choose_manager procfs_path has_v1 v2_mount = (case (has_v1, v2_mount) of
      (True, Some mp) \<Rightarrow> HybridCgroupManager \<lparr>v1_procfs_path = procfs_path\<rparr>
                          \<lparr>mount_path = mp, v2_procfs_path = procfs_path\<rparr>
    | (True, None) \<Rightarrow> CgroupV1Manager \<lparr>v1_procfs_path = procfs_path\<rparr>
    | (False, Some mp) \<Rightarrow> CgroupV2Manager \<lparr>mount_path = mp, v2_procfs_path = procfs_path\<rparr>
    | (False, None) \<Rightarrow> NullCgroupManager)"

definition create_manager :: "(manager, cgroup_error) prog" where
  "create_manager =
     (let path = ''/proc/self/mountinfo'' in
      bindP (tryP (Cgroup_Open path) (open_stream path)) (\<lambda>st.
      bindP (fromSum (scan_managers path (reader_lines st) False None)) (\<lambda>(has_v1, v2_mount).
      askP (\<lambda>K h. choose_manager (get_path K) has_v1 v2_mount))))"

definition manager_move_to :: "manager \<Rightarrow> pid \<Rightarrow> pid \<Rightarrow> (unit, cgroup_error) prog" where
  "manager_move_to m = (case m of
      HybridCgroupManager v1 v2 \<Rightarrow> hybrid_move_to v1 v2
    | CgroupV1Manager v1 \<Rightarrow> v1_move_to v1
    | CgroupV2Manager v2 \<Rightarrow> v2_move_to v2
    | NullCgroupManager \<Rightarrow> null_move_to)"

definition move_to :: "pid \<Rightarrow> pid \<Rightarrow> (unit, cgroup_error) prog" where
  "move_to pid target_pid =
     bindP create_manager (\<lambda>manager. manager_move_to manager pid target_pid)"

section \<open>The trait as an interface\<close>

text \<open>
  What a manager may do to the system: read files, open \<open>tasks\<close> or \<open>cgroup.procs\<close>
  files for writing, and write the decimal process id to an open file.
\<close>

definition cgroup_event :: "pid \<Rightarrow> event \<Rightarrow> bool" where
  "cgroup_event pid e = (case fst e of
      Open_read _ \<Rightarrow> True
    | Create p \<Rightarrow> suffix ''tasks'' p
    | Open_append p \<Rightarrow> suffix ''cgroup.procs'' p
    | Write_all fd s \<Rightarrow> s = show_int pid
    | _ \<Rightarrow> False)"

locale cgroup_manager =
  fixes mv :: "pid \<Rightarrow> pid \<Rightarrow> (unit, cgroup_error) prog"
  assumes mv_emits: "emits (cgroup_event pid) (mv pid target)"
    and mv_plain: "plain (mv pid target)"
begin

lemma mv_cases:
  obtains (moved) s where "mv pid target K h = (Ret (), h @ s)" "list_all (cgroup_event pid) s"
  | (failed) e s where "mv pid target K h = (Err e, h @ s)" "list_all (cgroup_event pid) s"
proof (rule plain_cases [OF mv_plain, of pid target K h])
  fix x h'
  assume run: "mv pid target K h = (Ret x, h')"
  with emitsD [OF mv_emits run] moved show thesis by auto
next
  fix e h'
  assume run: "mv pid target K h = (Err e, h')"
  with emitsD [OF mv_emits run] failed show thesis by auto
qed

lemma mv_writes_pid:
  assumes "mv pid target K h = (r, h @ s)" "(Write_all fd t, a) \<in> set s"
  shows "t = show_int pid"
  using emitsD [OF mv_emits assms(1)] assms(2) by (force simp: cgroup_event_def list_all_iff)

end

lemma suffix_path_join: "\<not> is_absolute p \<Longrightarrow> suffix p (path_join base p)"
  by (auto simp: path_join_def suffix_def)

lemma cgroup_v1_path_suffix: "cgroup_v1_path c m = Some p \<Longrightarrow> suffix ''tasks'' p"
  by (auto simp: cgroup_v1_path_def is_absolute_def intro!: suffix_path_join)

lemma procs_path_suffix: "suffix ''cgroup.procs'' (procs_path m c)"
  unfolding procs_path_def by (rule suffix_path_join) (simp add: is_absolute_def)

lemma emits_get_mounts: "emits (cgroup_event pid) get_mounts"
  unfolding get_mounts_def get_subsystems_def
  by (intro emits_intros) (simp_all add: cgroup_event_def)

lemma emits_v1_get_cgroups: "emits (cgroup_event pid) (v1_get_cgroups self p)"
  unfolding v1_get_cgroups_def by (intro emits_intros) (simp_all add: cgroup_event_def)

lemma emits_v1_move_to: "emits (cgroup_event pid) (v1_move_to self pid target)"
  unfolding v1_move_to_def
  by (intro emits_intros emits_get_mounts emits_v1_get_cgroups)
    (simp_all add: cgroup_event_def cgroup_v1_path_suffix)

lemma emits_v2_move_to: "emits (cgroup_event pid) (v2_move_to self pid target)"
  unfolding v2_move_to_def v2_get_cgroup_path_def
  by (intro emits_intros) (simp_all add: cgroup_event_def procs_path_suffix)

lemma plain_v1_move_to: "plain (v1_move_to self pid target)"
  unfolding v1_move_to_def v1_get_cgroups_def get_mounts_def get_subsystems_def
  by (intro outcome_intros) simp_all

lemma plain_v2_move_to: "plain (v2_move_to self pid target)"
  unfolding v2_move_to_def v2_get_cgroup_path_def by (intro outcome_intros) simp_all

interpretation v1: cgroup_manager "v1_move_to self" for self
  by unfold_locales (rule emits_v1_move_to plain_v1_move_to)+

interpretation v2: cgroup_manager "v2_move_to self" for self
  by unfold_locales (rule emits_v2_move_to plain_v2_move_to)+

interpretation hybrid: cgroup_manager "hybrid_move_to v1 v2" for v1 v2
  by unfold_locales
    (unfold hybrid_move_to_def; intro emits_intros outcome_intros v1.mv_emits v2.mv_emits
      ends_in_mono [OF v1.mv_plain] ends_in_mono [OF v2.mv_plain]; simp)+

interpretation null: cgroup_manager null_move_to
  by unfold_locales (simp_all add: null_move_to_def emits_intros outcome_intros)

interpretation dispatch: cgroup_manager "manager_move_to m" for m
  by (cases m; simp add: manager_move_to_def v1.cgroup_manager_axioms v2.cgroup_manager_axioms
      hybrid.cgroup_manager_axioms null.cgroup_manager_axioms)

lemma emits_create_manager: "emits (cgroup_event pid) create_manager"
  unfolding create_manager_def by (intro emits_intros) (simp_all add: cgroup_event_def)

interpretation top: cgroup_manager move_to
  by unfold_locales
    (unfold move_to_def create_manager_def; intro emits_intros outcome_intros dispatch.mv_emits
      ends_in_mono [OF dispatch.mv_plain]; simp add: cgroup_event_def)+

section \<open>Scans\<close>

definition is_v2_line :: "string \<Rightarrow> bool" where
  "is_v2_line l \<longleftrightarrow> prefix ''0::'' l"

lemma scan_v2_first:
  "\<forall>l \<in> set pre. \<not> is_v2_line l \<Longrightarrow> scan_v2 path (map Inr pre @ Inr (''0::'' @ p) # post) = Inr (Some p)"
  by (induction pre) (auto simp: is_v2_line_def strip_prefix_def)

text \<open>What one mount line says: \<open>Some (Inl ())\<close> for a v1 hierarchy, \<open>Some (Inr p)\<close> for a v2
  hierarchy mounted at \<open>p\<close>.\<close>

definition mount_kind :: "string \<Rightarrow> (unit + string) option" where
  "mount_kind l = (let fields = split_on SP l in
     if length fields < 10 then None
     else if fields ! 9 = ''cgroup'' then Some (Inl ())
     else if fields ! 9 = ''cgroup2'' then Some (Inr (fields ! 4)) else None)"

lemma scan_managers_eq:
  "scan_managers path (map Inr ls) has_v1 v2 =
     Inr (has_v1 \<or> Some (Inl ()) \<in> set (map mount_kind ls),
       let mps = [p. Some (Inr p) \<leftarrow> map mount_kind ls] in if mps = [] then v2 else Some (last mps))"
  by (induction ls arbitrary: has_v1 v2) (auto simp: mount_kind_def Let_def)

section \<open>Properties\<close>




text \<open>The manager is chosen by the kinds of hierarchies among the mounts: v1 when there is a
  v1 mount only, v2 at its last mount point when there is a v2 mount only, the hybrid
  one when there are both, and the null manager when there is none.\<close>

theorem manager_by_mounts:
  "map_sum id (\<lambda>(has_v1, v2). choose_manager procfs has_v1 v2) (scan_managers path (map Inr ls) False None) =
   Inr (let v1 = Some (Inl ()) \<in> set (map mount_kind ls); mps = [p. Some (Inr p) \<leftarrow> map mount_kind ls];
            m1 = \<lparr>v1_procfs_path = procfs\<rparr>; m2 = \<lparr>mount_path = last mps, v2_procfs_path = procfs\<rparr> in
        if v1 then (if mps = [] then CgroupV1Manager m1 else HybridCgroupManager m1 m2)
        else (if mps = [] then NullCgroupManager else CgroupV2Manager m2))"
  by (auto simp: scan_managers_eq choose_manager_def Let_def)

text \<open>The v1 manager looks the comma-separated pieces of each \<^emph>\<open>path\<close> of the target's cgroup
  file up among the mounted controllers; where no path piece is the name of one, which is
  the ordinary case, nothing is written and the process stays where it is.\<close>

theorem v1_move_noop:
  assumes "v1_get_cgroups self target K h = (Ret paths, h1)"
    and "get_mounts K h1 = (Ret mountpoints, h2)"
    and "\<forall>p \<in> set paths. \<forall>c \<in> set (split_on (CHR '','') p). mountpoints c = None"
  shows "v1_move_to self pid target K h = (Ret (), h2)"
proof -
  have none: "first_mount cs mountpoints = None" if "\<forall>c \<in> set cs. mountpoints c = None" for cs
    using that by (induction cs) auto
  have "forP (\<lambda>cgroup. case cgroup_v1_path cgroup mountpoints of
         None \<Rightarrow> retP ()
       | Some path \<Rightarrow> bindP (call (Create path)) (\<lambda>r. case r of
             Inr buffer \<Rightarrow> bindP (tryP (Cgroup_WritePid path) (call (Write_all buffer (show_int pid))))
                             (\<lambda>_. retP ())
           | Inl err \<Rightarrow> retP ())) paths K h2 = (Ret (), h2)"
    using assms(3) by (induction paths) (auto simp: prog_simps cgroup_v1_path_def none)
  with assms(1,2) show ?thesis by (simp add: v1_move_to_def prog_simps)
qed

definition sample_v1 :: kernel where
  "sample_v1 = sample\<lparr>k_read := (\<lambda>h f.
     if f = ''/proc/7/cgroup'' then (''4:memory:/docker/abc'' @ [NL], None)
     else if f = ''/proc/cgroups'' then (''memory'' @ TAB # ''4'' @ TAB # ''90'' @ TAB # ''1'' @ [NL], None)
     else (''33 24 0:29 / /sys/fs/cgroup/memory rw shared:14 - cgroup cgroup rw,memory'' @ [NL], None))\<rparr>"

theorem v1_move_noop_witness:
  "fst (v1_move_to \<lparr>v1_procfs_path = ''/proc''\<rparr> 100 7 sample_v1 []) = Ret ()"
proof -
  let ?s = "\<lparr>v1_procfs_path = ''/proc''\<rparr>"
  have cg_file: "cgroup_file (v1_procfs_path ?s) 7 = ''/proc/7/cgroup''" by code_simp
  have lines: "reader_lines (''4:memory:/docker/abc'' @ [NL], None) = [Inr ''4:memory:/docker/abc'']"
    "reader_lines (''memory'' @ TAB # ''4'' @ TAB # ''90'' @ TAB # ''1'' @ [NL], None) =
       [Inr (''memory'' @ TAB # ''4'' @ TAB # ''90'' @ TAB # ''1'')]"
    "reader_lines (''33 24 0:29 / /sys/fs/cgroup/memory rw shared:14 - cgroup cgroup rw,memory'' @ [NL], None) =
       [Inr ''33 24 0:29 / /sys/fs/cgroup/memory rw shared:14 - cgroup cgroup rw,memory'']"
    by code_simp+
  have scans: "scan_v1 ''/proc/7/cgroup'' [Inr ''4:memory:/docker/abc''] [] = Inr [''docker/abc'']"
    "scan_subsystems ''/proc/cgroups'' [Inr (''memory'' @ TAB # ''4'' @ TAB # ''90'' @ TAB # ''1'')] [] = Inr [''memory'']"
    by code_simp+
  have fields: "split_on SP ''33 24 0:29 / /sys/fs/cgroup/memory rw shared:14 - cgroup cgroup rw,memory'' =
      [''33'', ''24'', ''0:29'', ''/'', ''/sys/fs/cgroup/memory'', ''rw'', ''shared:14'', ''-'', ''cgroup'', ''cgroup'', ''rw,memory'']"
    "split_on (CHR '','') ''rw,memory'' = [''rw'', ''memory'']" "split_on (CHR '','') ''docker/abc'' = [''docker/abc'']"
    "option_name ''rw'' = ''rw''" "option_name ''memory'' = ''memory''"
    by code_simp+
  have open1: "k_call sample_v1 h c = sample_call h c" for h c by (simp add: sample_v1_def sample_def)
  have reads: "k_read sample_v1 h ''/proc/7/cgroup'' = (''4:memory:/docker/abc'' @ [NL], None)"
    "k_read sample_v1 h ''/proc/cgroups'' = (''memory'' @ TAB # ''4'' @ TAB # ''90'' @ TAB # ''1'' @ [NL], None)"
    "k_read sample_v1 h ''/proc/self/mountinfo'' =
      (''33 24 0:29 / /sys/fs/cgroup/memory rw shared:14 - cgroup cgroup rw,memory'' @ [NL], None)" for h
    by (simp_all add: sample_v1_def)
  have cg: "v1_get_cgroups ?s 7 sample_v1 [] = (Ret [''docker/abc''], [(Open_read ''/proc/7/cgroup'', Inr 0)])"
    unfolding v1_get_cgroups_def Let_def cg_file
    by (simp only: prog_simps open1 sample_call_def reads lines scans Let_def call.case sum.case res.case prod.case append_Nil)
  have mo: "\<exists>h2. get_mounts sample_v1 h1 = (Ret [''memory'' \<mapsto> ''/sys/fs/cgroup/memory''], h2)" for h1
    unfolding get_mounts_def get_subsystems_def Let_def
    by (simp add: prog_simps open1 sample_call_def reads lines [simplified] scans [simplified] Let_def fields [simplified])
  from mo obtain h2 where "get_mounts sample_v1 [(Open_read ''/proc/7/cgroup'', Inr 0)] =
      (Ret [''memory'' \<mapsto> ''/sys/fs/cgroup/memory''], h2)" by blast
  from v1_move_noop [OF cg this] fields show ?thesis by simp
qed

section \<open>The unit tests of the source\<close>

text \<open>The expectations of the module \<open>tests\<close> of \<open>cgroup.rs\<close> hold of the model.\<close>

lemma test_cgroup_v1_path_construction:
  "cgroup_v1_path ''cpu'' [''cpu'' \<mapsto> ''/sys/fs/cgroup/cpu'', ''memory'' \<mapsto> ''/sys/fs/cgroup/memory''] =
     Some ''/sys/fs/cgroup/cpu/cpu/tasks''"
  "cgroup_v1_path ''blkio'' [''cpu'' \<mapsto> ''/sys/fs/cgroup/cpu'', ''memory'' \<mapsto> ''/sys/fs/cgroup/memory''] = None"
  by code_simp+

text \<open>The kernel of the other two tests: the file of one process has the given text.\<close>

definition test_cgroup_kernel :: "string \<Rightarrow> kernel" where
  "test_cgroup_kernel text = sample\<lparr>k_read := (\<lambda>h p. (text, None))\<rparr>"

lemma test_cgroup_v2_path:
  "k_read (test_cgroup_kernel text) h p = (text, None)" "k_call (test_cgroup_kernel text) h (Open_read p) = Inr 0"
  by (simp_all add: test_cgroup_kernel_def sample_simps)

lemma test_cgroup_v2_path_parses_correctly:
  "fst (v2_get_cgroup_path \<lparr>mount_path = ''/sys/fs/cgroup'', v2_procfs_path = ''/tmp/cntr_test''\<rparr> 12345
     (test_cgroup_kernel (''0::/user.slice/user-1000.slice/session-3.scope'' @ [NL])) []) =
   Ret (Some ''/user.slice/user-1000.slice/session-3.scope'')"
proof -
  have "scan_v2 f (reader_lines (''0::/user.slice/user-1000.slice/session-3.scope'' @ [NL], None)) =
    Inr (Some ''/user.slice/user-1000.slice/session-3.scope'')" for f by code_simp
  then show ?thesis
    by (simp only: v2_get_cgroup_path_def prog_simps test_cgroup_v2_path Let_def sum.case res.case prod.case fst_conv)
qed

lemma test_cgroup_v2_path_returns_none_for_v1:
  "fst (v2_get_cgroup_path \<lparr>mount_path = ''/sys/fs/cgroup'', v2_procfs_path = ''/tmp/cntr_test_v1''\<rparr> 12346
     (test_cgroup_kernel (''1:name=systemd:/user.slice'' @ NL # ''2:cpu,cpuacct:/user.slice'' @ [NL])) []) = Ret None"
proof -
  have "scan_v2 f (reader_lines (''1:name=systemd:/user.slice'' @ NL # ''2:cpu,cpuacct:/user.slice'' @ [NL], None)) = Inr None"
    for f by code_simp
  then show ?thesis
    by (simp only: v2_get_cgroup_path_def prog_simps test_cgroup_v2_path Let_def sum.case res.case prod.case fst_conv)
qed

end
