(* ===== verification/Namespace.thy ===== *)
theory Namespace
  imports Paths
begin

text \<open>
  \<open>namespace.rs\<close>: the kinds of namespaces, which of them the kernel supports, whether cntr
  and the container already share one, opening a namespace of a process and entering it.
\<close>

section \<open>Model\<close>

datatype namespace_error =
    ListNamespaces io_error
  | OpenNamespaceFile string io_error
  | SetNamespace string io_error

datatype Kind = Kind (kname: string)

definition MOUNT :: Kind where "MOUNT = Kind ''mnt''"
definition UTS :: Kind where "UTS = Kind ''uts''"
definition USER :: Kind where "USER = Kind ''user''"
definition PID :: Kind where "PID = Kind ''pid''"
definition NET :: Kind where "NET = Kind ''net''"
definition CGROUP :: Kind where "CGROUP = Kind ''cgroup''"
definition IPC :: Kind where "IPC = Kind ''ipc''"

lemmas kind_defs = MOUNT_def UTS_def USER_def PID_def NET_def CGROUP_def IPC_def

record namespace =
  ns_kind :: Kind
  ns_file :: fd

fun collect_names :: "(io_error + string) list \<Rightarrow> string set \<Rightarrow> namespace_error + string set" where
  "collect_names [] acc = Inr acc"
| "collect_names (Inl e # es) acc = Inl (ListNamespaces e)"
| "collect_names (Inr name # es) acc =
     collect_names es (if utf8_valid name then insert name acc else acc)"

definition supported_namespaces :: "(string set, namespace_error) prog" where
  "supported_namespaces =
     bindP (tryP ListNamespaces
       (query (Read_dir ''/proc/self/ns'') (\<lambda>K h. k_dir K h ''/proc/self/ns''))) (\<lambda>entries.
     fromSum (collect_names entries {}))"

definition ns_path :: "kernel \<Rightarrow> Kind \<Rightarrow> pid \<Rightarrow> string" where
  "ns_path K kind pid = path_join (path_join (pid_dir K pid) ''ns'') (kname kind)"

definition own_ns_path :: "Kind \<Rightarrow> string" where
  "own_ns_path kind = path_join ''/proc/self/ns'' (kname kind)"

definition ns_open :: "Kind \<Rightarrow> pid \<Rightarrow> (namespace, namespace_error) prog" where
  "ns_open kind pid =
     bindP (askP (\<lambda>K h. ns_path K kind pid)) (\<lambda>path.
     bindP (tryP (OpenNamespaceFile path) (call (Open_read path))) (\<lambda>file.
     retP \<lparr>ns_kind = kind, ns_file = file\<rparr>))"

definition is_same :: "Kind \<Rightarrow> pid \<Rightarrow> (bool, 'e) prog" where
  "is_same kind pid =
     bindP (askP (\<lambda>K h. ns_path K kind pid)) (\<lambda>path.
     bindP (read_link path) (\<lambda>r. case r of
         Inr dest \<Rightarrow> bindP (read_link (own_ns_path kind)) (\<lambda>r2. case r2 of
             Inr dest2 \<Rightarrow> retP (dest = dest2)
           | Inl _ \<Rightarrow> retP False)
       | Inl _ \<Rightarrow> retP False))"

definition ns_apply :: "namespace \<Rightarrow> (unit, namespace_error) prog" where
  "ns_apply ns =
     bindP (tryP (SetNamespace (kname (ns_kind ns))) (call (Setns (ns_file ns)))) (\<lambda>_. retP ())"

section \<open>The other namespaces\<close>

text \<open>
  Both \<open>enter_namespaces\<close> (exec) and \<open>attach::child::run\<close> walk the same array of kinds,
  skip the unsupported and the shared ones and open the rest.
\<close>

definition other_kinds :: "Kind list" where
  "other_kinds = [UTS, CGROUP, PID, NET, IPC, USER]"

text \<open>The loop of \<open>attach::child::run\<close>; the one of exec also tracks a flag.\<close>

definition open_step :: "string set \<Rightarrow> pid \<Rightarrow> Kind \<Rightarrow> namespace list \<Rightarrow> (namespace list, namespace_error) prog" where
  "open_step supported pid kind acc =
     (if kname kind \<notin> supported then retP acc else
      bindP (is_same kind pid) (\<lambda>same.
      if same then retP acc else
      bindP (ns_open kind pid) (\<lambda>ns. retP (acc @ [ns]))))"

definition open_other_namespaces :: "string set \<Rightarrow> pid \<Rightarrow> (namespace list, namespace_error) prog" where
  "open_other_namespaces supported pid = foldP (open_step supported pid) other_kinds []"

section \<open>Rules\<close>

lemma ns_open_Ret:
  "ns_open kind p K h = (Ret ns, h') \<longleftrightarrow>
     (\<exists>fd. k_call K h (Open_read (ns_path K kind p)) = Inr fd \<and>
        h' = h @ [(Open_read (ns_path K kind p), Inr fd)] \<and> ns = \<lparr>ns_kind = kind, ns_file = fd\<rparr>)"
  by (auto simp: ns_open_def prog_inv)

lemma ns_open_Err:
  "ns_open kind p K h = (Err e, h') \<longleftrightarrow>
     (\<exists>d. k_call K h (Open_read (ns_path K kind p)) = Inl d \<and>
        h' = h @ [(Open_read (ns_path K kind p), Inl d)] \<and> e = OpenNamespaceFile (ns_path K kind p) d)"
  by (auto simp: ns_open_def prog_inv)

lemma ns_apply_Ret:
  "ns_apply ns K h = (Ret u, h') \<longleftrightarrow>
     (\<exists>n. k_call K h (Setns (ns_file ns)) = Inr n \<and> h' = h @ [(Setns (ns_file ns), Inr n)])"
  by (auto simp: ns_apply_def prog_inv)

lemma ns_apply_Err:
  "ns_apply ns K h = (Err e, h') \<longleftrightarrow>
     (\<exists>d. k_call K h (Setns (ns_file ns)) = Inl d \<and> h' = h @ [(Setns (ns_file ns), Inl d)] \<and>
        e = SetNamespace (kname (ns_kind ns)) d)"
  by (auto simp: ns_apply_def prog_inv)

definition is_ns_lookup :: "event \<Rightarrow> bool" where
  "is_ns_lookup e = (case fst e of
      Open_read _ \<Rightarrow> True | Read_link _ \<Rightarrow> True | Read_dir _ \<Rightarrow> True | _ \<Rightarrow> False)"

lemma emits_supported [emits_intros]: "emits is_ns_lookup supported_namespaces"
  unfolding supported_namespaces_def by (intro emits_intros) (simp add: is_ns_lookup_def)

lemma emits_ns_open [emits_intros]: "emits is_ns_lookup (ns_open kind p)"
  unfolding ns_open_def by (intro emits_intros) (simp add: is_ns_lookup_def)

lemma emits_is_same [emits_intros]: "emits is_ns_lookup (is_same kind p)"
  unfolding is_same_def by (intro emits_intros) (simp_all add: is_ns_lookup_def)

lemma emits_ns_apply [emits_intros]: "emits (\<lambda>e. fst e = Setns (ns_file ns)) (ns_apply ns)"
  unfolding ns_apply_def by (intro emits_intros) simp

lemma plain_supported [outcome_intros]: "{O_ret, O_err} \<subseteq> S \<Longrightarrow> ends_in S supported_namespaces"
  unfolding supported_namespaces_def by (intro outcome_intros) auto

lemma plain_ns_open [outcome_intros]: "{O_ret, O_err} \<subseteq> S \<Longrightarrow> ends_in S (ns_open kind p)"
  unfolding ns_open_def by (intro outcome_intros) auto

lemma plain_is_same [outcome_intros]: "O_ret \<in> S \<Longrightarrow> ends_in S (is_same kind p)"
  unfolding is_same_def by (intro outcome_intros) auto

lemma plain_ns_apply [outcome_intros]: "{O_ret, O_err} \<subseteq> S \<Longrightarrow> ends_in S (ns_apply ns)"
  unfolding ns_apply_def by (intro outcome_intros) auto

lemma is_same_never_fails: "is_same kind p K h \<noteq> (Err e, h')"
  using ends_inD [OF plain_is_same [of "{O_ret}" kind p], of K h "Err e" h'] by auto

text \<open>Entering a list of opened namespaces, in order: the first refusal ends the walk.\<close>

lemma for_apply_Ret:
  "forP ns_apply nss K h = (Ret u, h') \<Longrightarrow>
     \<exists>rs. length rs = length nss \<and> list_all (\<lambda>r. \<exists>n. r = Inr n) rs \<and>
          h' = h @ zip (map (\<lambda>ns. Setns (ns_file ns)) nss) rs"
proof (induction nss arbitrary: h)
  case Nil
  then show ?case by (simp add: prog_inv)
next
  case (Cons ns nss)
  from Cons.prems obtain n where
    n: "k_call K h (Setns (ns_file ns)) = Inr n" and
    rest: "forP ns_apply nss K (h @ [(Setns (ns_file ns), Inr n)]) = (Ret u, h')"
    by (auto simp: prog_inv ns_apply_Ret)
  from Cons.IH [OF rest] obtain rs where
    rs: "length rs = length nss" "list_all (\<lambda>r. \<exists>n. r = Inr n) rs"
      "h' = (h @ [(Setns (ns_file ns), Inr n)]) @ zip (map (\<lambda>ns. Setns (ns_file ns)) nss) rs"
    by blast
  then show ?case by (intro exI [of _ "Inr n # rs"]) simp
qed

text \<open>Contract of the loop: what it opened, in which order, and that it entered nothing.\<close>

locale namespace_opener =
  fixes opn :: "string set \<Rightarrow> pid \<Rightarrow> (namespace list, namespace_error) prog"
  assumes opn_kinds: "opn av p K h = (Ret nss, h') \<Longrightarrow> subseq (map ns_kind nss) other_kinds"
    and opn_supported: "opn av p K h = (Ret nss, h') \<Longrightarrow> ns \<in> set nss \<Longrightarrow> kname (ns_kind ns) \<in> av"
    and opn_opened: "opn av p K h = (Ret nss, h') \<Longrightarrow> ns \<in> set nss \<Longrightarrow>
          (Open_read (ns_path K (ns_kind ns) p), Inr (ns_file ns)) \<in> set h'"
    and opn_emits: "emits is_ns_lookup (opn av p)"
    and opn_plain: "plain (opn av p)"
begin

lemma opn_distinct: "opn av p K h = (Ret nss, h') \<Longrightarrow> distinct (map ns_kind nss)"
  by (rule subseq_distinct [OF opn_kinds]) (auto simp: other_kinds_def kind_defs)

lemma opn_not_mount: "opn av p K h = (Ret nss, h') \<Longrightarrow> ns \<in> set nss \<Longrightarrow> ns_kind ns \<noteq> MOUNT"
  using subseq_set [OF opn_kinds [of av p K h nss h']] by (auto simp: other_kinds_def kind_defs)

lemma opn_user_last:
  assumes run: "opn av p K h = (Ret (xs @ ns # ys), h')" and user: "ns_kind ns = USER"
  shows "ys = []"
proof (rule ccontr)
  assume "ys \<noteq> []"
  then obtain y zs where y: "ys = y # zs" by (cases ys) auto
  have "subseq (map ns_kind xs @ USER # ns_kind y # map ns_kind zs) other_kinds"
    using opn_kinds [OF run] by (simp add: user y)
  then have "subseq (USER # ns_kind y # map ns_kind zs) other_kinds" by (rule subseq_tail)
  then show False by (simp add: other_kinds_def kind_defs)
qed

end

lemma open_fold_Ret:
  "foldP (open_step av p) ks acc K h = (Ret nss, h') \<Longrightarrow>
     \<exists>new. nss = acc @ new \<and> subseq (map ns_kind new) ks \<and>
       (\<forall>ns \<in> set new. kname (ns_kind ns) \<in> av \<and>
          (Open_read (ns_path K (ns_kind ns) p), Inr (ns_file ns)) \<in> set h')"
proof (induction ks arbitrary: acc h)
  case Nil
  then show ?case by (simp add: prog_inv)
next
  case (Cons k ks)
  from Cons.prems obtain acc1 h1 where
    s: "open_step av p k acc K h = (Ret acc1, h1)" and
    r: "foldP (open_step av p) ks acc1 K h1 = (Ret nss, h')"
    by (auto simp: prog_inv)
  have ext: "set h1 \<subseteq> set h'"
  proof -
    have "emits (\<lambda>_. True) (foldP (open_step av p) ks acc1)"
      unfolding open_step_def is_same_def ns_open_def by (intro emits_intros) simp_all
    from emitsD [OF this r] show ?thesis by auto
  qed
  from Cons.IH [OF r] obtain new where new: "nss = acc1 @ new" "subseq (map ns_kind new) ks"
    "\<forall>ns \<in> set new. kname (ns_kind ns) \<in> av \<and>
          (Open_read (ns_path K (ns_kind ns) p), Inr (ns_file ns)) \<in> set h'"
    by blast
  show ?case
  proof (cases "acc1 = acc")
    case True
    with new show ?thesis by (auto intro: list_emb_Cons)
  next
    case False
    with s obtain fd where fd: "acc1 = acc @ [\<lparr>ns_kind = k, ns_file = fd\<rparr>]" "kname k \<in> av"
      "(Open_read (ns_path K k p), Inr fd) \<in> set h1"
      by (auto simp: open_step_def prog_inv ns_open_Ret split: if_splits)
    with new ext show ?thesis by (intro exI [of _ "\<lparr>ns_kind = k, ns_file = fd\<rparr> # new"]) auto
  qed
qed

lemma emits_open_step [emits_intros]: "emits is_ns_lookup (open_step av p k acc)"
  unfolding open_step_def by (intro emits_intros)

lemma plain_open_step [outcome_intros]: "{O_ret, O_err} \<subseteq> S \<Longrightarrow> ends_in S (open_step av p k acc)"
  unfolding open_step_def by (intro outcome_intros) auto

interpretation opener: namespace_opener open_other_namespaces
proof unfold_locales
  fix av p K h nss h' ns
  assume run: "open_other_namespaces av p K h = (Ret nss, h')"
  from open_fold_Ret [OF run [unfolded open_other_namespaces_def]]
  have *: "subseq (map ns_kind nss) other_kinds"
    "\<forall>ns \<in> set nss. kname (ns_kind ns) \<in> av \<and>
          (Open_read (ns_path K (ns_kind ns) p), Inr (ns_file ns)) \<in> set h'"
    by auto
  show "subseq (map ns_kind nss) other_kinds" by fact
  assume "ns \<in> set nss"
  with * show "kname (ns_kind ns) \<in> av"
    "(Open_read (ns_path K (ns_kind ns) p), Inr (ns_file ns)) \<in> set h'" by auto
next
  show "emits is_ns_lookup (open_other_namespaces av p)" for av p
    unfolding open_other_namespaces_def by (intro emits_intros)
  show "plain (open_other_namespaces av p)" for av p
    unfolding open_other_namespaces_def by (intro outcome_intros) auto
qed

end
