(* ===== verification/Lsm.thy ===== *)
theory Lsm
  imports Paths Sample
begin

text \<open>
  \<open>lsm.rs\<close>: whether AppArmor is enabled, the labels of the target and of cntr itself, and
  the write that makes the process change to the target's profile.
\<close>

section \<open>Model\<close>

datatype ApparmorMode = Auto | Off

datatype lsm_error =
    ReadEnabled string io_error
  | OpenProfile string io_error
  | ReadProfile string io_error
  | WriteProfile string io_error

record lsm_profile =
  label :: string
  own_path :: string

definition aa_path :: string where
  "aa_path = ''/sys/module/apparmor/parameters/enabled''"

definition is_apparmor_enabled :: "(bool, lsm_error) prog" where
  "is_apparmor_enabled =
     bindP (open_stream aa_path) (\<lambda>r. case r of
         Inr st \<Rightarrow> bindP (tryP (ReadEnabled aa_path) (retP (stream_to_string st)))
                     (\<lambda>contents. retP (contents = ''Y'' @ [NL]))
       | Inl err \<Rightarrow> if err \<noteq> ENOENT then throwP (ReadEnabled aa_path err) else retP False)"

definition apparmor_profile_path :: "kernel \<Rightarrow> pid option \<Rightarrow> string" where
  "apparmor_profile_path K pid =
     path_join (path_join (get_path K) (case pid of None \<Rightarrow> ''self'' | Some p \<Rightarrow> show_int p))
       ''attr/apparmor/current''"

definition label_of_attr :: "string \<Rightarrow> string" where
  "label_of_attr attr = hd (splitn2 SP (trim_end attr))"

definition read_apparmor_label :: "string \<Rightarrow> (string, lsm_error) prog" where
  "read_apparmor_label path =
     bindP (tryP (OpenProfile path) (open_stream path)) (\<lambda>st.
     bindP (tryP (ReadProfile path) (retP (stream_to_string st))) (\<lambda>attr.
     retP (label_of_attr attr)))"

definition read_profile :: "pid \<Rightarrow> ApparmorMode \<Rightarrow> (lsm_profile option, lsm_error) prog" where
  "read_profile pid apparmor_mode =
     (if apparmor_mode = Off then retP None else
      bindP is_apparmor_enabled (\<lambda>enabled.
      if \<not> enabled then retP None else
      bindP (askP (\<lambda>K h. apparmor_profile_path K (Some pid))) (\<lambda>target_path.
      bindP (read_apparmor_label target_path) (\<lambda>target_label.
      bindP (askP (\<lambda>K h. apparmor_profile_path K None)) (\<lambda>own.
      bindP (read_apparmor_label own) (\<lambda>own_label.
      if target_label = own_label then retP None
      else retP (Some \<lparr>label = target_label, own_path = own\<rparr>)))))))"

definition inherit_profile :: "lsm_profile \<Rightarrow> (unit, lsm_error) prog" where
  "inherit_profile prof =
     bindP (tryP (OpenProfile (own_path prof)) (call (Open_write (own_path prof)))) (\<lambda>file.
     let attr = ''changeprofile '' @ label prof in
     bindP (tryP (WriteProfile attr) (call (Write_all file attr))) (\<lambda>_. retP ()))"

section \<open>Rules\<close>

definition is_open_read :: "event \<Rightarrow> bool" where
  "is_open_read e = (case fst e of Open_read _ \<Rightarrow> True | _ \<Rightarrow> False)"

lemma emits_is_apparmor_enabled [emits_intros]: "emits is_open_read is_apparmor_enabled"
  unfolding is_apparmor_enabled_def by (intro emits_intros) (simp add: is_open_read_def)

lemma emits_read_apparmor_label [emits_intros]: "emits is_open_read (read_apparmor_label p)"
  unfolding read_apparmor_label_def by (intro emits_intros) (simp add: is_open_read_def)

lemma emits_read_profile [emits_intros]: "emits is_open_read (read_profile p m)"
  unfolding read_profile_def by (intro emits_intros)

lemma plain_read_profile [outcome_intros]:
  "{O_ret, O_err} \<subseteq> S \<Longrightarrow> ends_in S (read_profile p m)"
  unfolding read_profile_def read_apparmor_label_def is_apparmor_enabled_def
  by (intro outcome_intros) auto

lemma plain_inherit_profile [outcome_intros]:
  "{O_ret, O_err} \<subseteq> S \<Longrightarrow> ends_in S (inherit_profile p)"
  unfolding inherit_profile_def by (intro outcome_intros) auto

text \<open>A read of a label that succeeds is one open, and its value comes from that file.\<close>

lemma read_label_Ret:
  "read_apparmor_label p K h = (Ret l, h') \<longleftrightarrow>
     (\<exists>n attr. k_call K h (Open_read p) = Inr n \<and> h' = h @ [(Open_read p, Inr n)] \<and>
        stream_to_string (k_read K h' p) = Inr attr \<and> l = label_of_attr attr)"
  by (auto simp: read_apparmor_label_def prog_simps Let_def split: sum.splits)

lemma label_of_attr_enforced:
  assumes "list_all plain_char l" "l \<noteq> []" "list_all plain_char m"
  shows "label_of_attr (l @ SP # m @ [NL]) = l"
proof -
  have sp: "SP \<notin> set l" using assms(1) by (auto simp: list_all_iff plain_char_def)
  have nl: "drop_ws rev (NL # x) = drop_ws rev x" for x
    by (subst drop_ws.simps) (simp add: ws_len_def ws_seq_def)
  obtain d ds where last: "rev (l @ SP # m) = d # ds \<and> (m \<noteq> [] \<longrightarrow> plain_char d)"
    using assms(3) by (cases m rule: rev_cases) auto
  show ?thesis
  proof (cases "m = []")
    case False
    then have "drop_ws rev (rev (l @ SP # m)) = rev (l @ SP # m)"
      using last by (simp add: drop_ws_plain_rev)
    then have "trim_end (l @ SP # m @ [NL]) = l @ SP # m"
      by (simp add: trim_end_def nl flip: rev_swap)
    then show ?thesis using sp by (simp add: label_of_attr_def splitn2_append)
  next
    case True
    obtain e es where e: "rev l = e # es" "plain_char e"
      using assms(1,2) by (cases l rule: rev_cases) auto
    have "drop_ws rev (SP # rev l) = rev l"
      by (subst drop_ws.simps) (simp add: ws_len_def ws_seq_def e drop_ws_plain_rev [OF e(2), of es])
    then have "trim_end (l @ SP # m @ [NL]) = l"
      using True by (simp add: trim_end_def nl)
    then show ?thesis using sp by (simp add: label_of_attr_def splitn2_no_sep)
  qed
qed

section \<open>Properties\<close>

lemma read_label_run:
  assumes "k_call K h (Open_read p) = Inr n"
    and "stream_to_string (k_read K (h @ [(Open_read p, Inr n)]) p) = Inr attr"
  shows "read_apparmor_label p K h = (Ret (label_of_attr attr), h @ [(Open_read p, Inr n)])"
  using assms by (simp add: read_label_Ret)

text \<open>C36: With AppArmor enabled, the profile that will be inherited is the label of the
  container's process without its mode, to be written to the program's own attribute file,
  and there is none when both processes already have the same label.\<close>

theorem read_profile_label:
  assumes "\<And>h f. k_call K h (Open_read f) = Inr 3"
    and "\<And>h. k_read K h aa_path = (''Y'' @ [NL], None)"
    and "\<And>h. k_read K h (apparmor_profile_path K (Some p)) = (l @ SP # m @ [NL], None)"
    and "\<And>h. k_read K h (apparmor_profile_path K None) = (l' @ SP # m' @ [NL], None)"
    and "list_all (list_all plain_char) [l, m, l', m']" "l \<noteq> []" "l' \<noteq> []"
  shows "read_profile p Auto K h =
    (Ret (if l = l' then None else Some \<lparr>label = l, own_path = apparmor_profile_path K None\<rparr>),
     h @ [(Open_read aa_path, Inr 3), (Open_read (apparmor_profile_path K (Some p)), Inr 3),
          (Open_read (apparmor_profile_path K None), Inr 3)])"
proof -
  have utf8: "utf8_valid (a @ SP # b @ [NL])" if "list_all plain_char a" "list_all plain_char b" for a b
    using that by (intro utf8_valid_all_ascii) (auto simp: list_all_iff plain_char_def)
  have "stream_to_string (l @ SP # m @ [NL], None) = Inr (l @ SP # m @ [NL])"
    "stream_to_string (l' @ SP # m' @ [NL], None) = Inr (l' @ SP # m' @ [NL])"
    using assms(5) by (simp_all add: stream_to_string_def check_utf8_def utf8)
  moreover have "stream_to_string ([CHR ''Y'', NL], None) = Inr [CHR ''Y'', NL]" by code_simp
  ultimately show ?thesis
    using assms
    by (simp add: read_profile_def is_apparmor_enabled_def prog_simps Let_def read_label_run
        label_of_attr_enforced)
qed

definition sample_apparmor :: kernel where
  "sample_apparmor = sample\<lparr>k_call := (\<lambda>h c. Inr 3),
     k_read := (\<lambda>h f. if f = aa_path then (''Y'' @ [NL], None)
       else if f = ''/proc/7/attr/apparmor/current'' then (''docker-default (enforce)'' @ [NL], None)
       else (''unconfined (enforce)'' @ [NL], None))\<rparr>"

theorem read_profile_label_witness:
  "fst (read_profile 7 Auto sample_apparmor []) =
     Ret (Some \<lparr>label = ''docker-default'', own_path = ''/proc/self/attr/apparmor/current''\<rparr>)"
proof -
  have seven: "show_int 7 = ''7''" by code_simp
  have p: "apparmor_profile_path sample_apparmor (Some 7) = ''/proc/7/attr/apparmor/current''"
    "apparmor_profile_path sample_apparmor None = ''/proc/self/attr/apparmor/current''"
    by (simp_all add: apparmor_profile_path_def get_path_def var_os_def sample_apparmor_def sample_simps
        path_join_def is_absolute_def seven)
  from read_profile_label [of sample_apparmor 7 "''docker-default''" "''(enforce)''" "''unconfined''" "''(enforce)''" "[]"]
  show ?thesis
    unfolding p by (simp add: sample_apparmor_def aa_path_def plain_char_def)
qed

end
