(* ===== verification/Procfs.thy ===== *)
theory Procfs
  imports Lsm Sample
begin

text \<open>
  \<open>procfs/mod.rs\<close>: translation of host ids to container ids through \<open>uid_map\<close> and
  \<open>gid_map\<close> with checked \<open>u32\<close> arithmetic, the scan of \<open>/proc/<pid>/status\<close> for the
  effective capabilities, and the process status built from them. The abstract side is an
  id map as a list of ranges over the natural numbers; the scan of the file is proved to
  implement it.
\<close>

section \<open>Errors\<close>

datatype procfs_error =
    Procfs_Open string io_error
  | Procfs_Read string io_error
  | Procfs_Parse string string string int_error
  | IdOverflow string u32 u32
  | MalformedStatusLine string nat string
  | MissingCapEff string
  | Procfs_Metadata string io_error
  | Procfs_Lsm lsm_error

section \<open>Id maps\<close>

definition parse_id :: "string \<Rightarrow> string \<Rightarrow> string \<Rightarrow> procfs_error + u32" where
  "parse_id path what v = map_sum (Procfs_Parse what path v) id (parse_u32 v)"

text \<open>One line with three fields: the result it decides, or \<open>None\<close> to go on.\<close>

definition translate_line :: "string \<Rightarrow> u32 \<Rightarrow> string list \<Rightarrow> procfs_error + u32 option" where
  "translate_line path outer_id parts =
     (case parse_id path ''inner ID'' (parts ! 0) of Inl e \<Rightarrow> Inl e | Inr inner_start \<Rightarrow>
      case parse_id path ''outer ID'' (parts ! 1) of Inl e \<Rightarrow> Inl e | Inr outer_start \<Rightarrow>
      case parse_id path ''length'' (parts ! 2) of Inl e \<Rightarrow> Inl e | Inr len \<Rightarrow>
      case checked_sub outer_id outer_start of None \<Rightarrow> Inr None | Some offset \<Rightarrow>
      if offset < len
      then (case checked_add inner_start offset of
              None \<Rightarrow> Inl (IdOverflow path inner_start offset) | Some inner \<Rightarrow> Inr (Some inner))
      else Inr None)"

fun translate_lines :: "string \<Rightarrow> u32 \<Rightarrow> string list \<Rightarrow> procfs_error + u32" where
  "translate_lines path outer_id [] = Inr outer_id"
| "translate_lines path outer_id (l # ls) =
     (let parts = split_whitespace l in
      if length parts \<noteq> 3 then translate_lines path outer_id ls
      else (case translate_line path outer_id parts of
              Inl e \<Rightarrow> Inl e
            | Inr (Some inner) \<Rightarrow> Inr inner
            | Inr None \<Rightarrow> translate_lines path outer_id ls))"

definition translate_id :: "string \<Rightarrow> u32 \<Rightarrow> (u32, procfs_error) prog" where
  "translate_id map_path outer_id =
     bindP (tryP (Procfs_Read map_path) (read_to_string map_path)) (\<lambda>contents.
     fromSum (translate_lines map_path outer_id (lines contents)))"

section \<open>Process status\<close>

record proc_status =
  global_pid :: pid
  effective_capabilities :: u64
  last_cap :: u64
  ps_uid :: u32
  ps_gid :: u32
  ps_lsm_profile :: "lsm_profile option"

definition parse_cap :: "string \<Rightarrow> string \<Rightarrow> procfs_error + u64" where
  "parse_cap path v = map_sum (Procfs_Parse ''capability'' path v) id (parse_u64 16 v)"

fun scan_status :: "string \<Rightarrow> (io_error + string) list \<Rightarrow> u64 option \<Rightarrow> procfs_error + u64 option" where
  "scan_status path [] caps = Inr caps"
| "scan_status path (Inl e # ls) caps = Inl (Procfs_Read path e)"
| "scan_status path (Inr line # ls) caps =
     (let columns = split_on TAB line in
      if length columns < 2 then Inl (MalformedStatusLine path (length columns) line)
      else if columns ! 0 = ''CapEff:'' then
        (case parse_cap path (last columns) of
           Inl e \<Rightarrow> Inl e | Inr cap \<Rightarrow> scan_status path ls (Some cap))
      else scan_status path ls caps)"

definition status :: "pid \<Rightarrow> ApparmorMode \<Rightarrow> (proc_status, procfs_error) prog" where
  "status target_pid apparmor_mode =
     bindP (askP (\<lambda>K h. path_join (pid_dir K target_pid) ''status'')) (\<lambda>path.
     bindP (tryP (Procfs_Open path) (open_stream path)) (\<lambda>st.
     bindP (fromSum (scan_status path (reader_lines st) None)) (\<lambda>caps.
     bindP (fromSum (case caps of None \<Rightarrow> Inl (MissingCapEff path) | Some c \<Rightarrow> Inr c)) (\<lambda>eff.
     bindP (askP (\<lambda>K h. path_join (get_path K) ''sys/kernel/cap_last_cap'')) (\<lambda>cap_path.
     bindP (tryP (Procfs_Read cap_path) (read_to_string cap_path)) (\<lambda>contents.
     let trimmed = trim contents in
     bindP (fromSum (map_sum (Procfs_Parse ''last capability value'' cap_path trimmed) id
                       (parse_u64 10 trimmed))) (\<lambda>lcap.
     bindP (askP (\<lambda>K h. pid_dir K target_pid)) (\<lambda>proc_dir.
     bindP (tryP (Procfs_Metadata proc_dir)
              (query (Stat proc_dir) (\<lambda>K h. k_stat K h proc_dir))) (\<lambda>(host_uid, host_gid).
     bindP (translate_id (path_join proc_dir ''uid_map'') host_uid) (\<lambda>container_uid.
     bindP (translate_id (path_join proc_dir ''gid_map'') host_gid) (\<lambda>container_gid.
     bindP (map_errP Procfs_Lsm (read_profile target_pid apparmor_mode)) (\<lambda>prof.
     retP \<lparr>global_pid = target_pid, effective_capabilities = eff, last_cap = lcap,
           ps_uid = container_uid, ps_gid = container_gid, ps_lsm_profile = prof\<rparr>))))))))))))"

section \<open>The abstract id map\<close>

text \<open>A range maps \<open>outer, outer + 1, \<dots>\<close> (host) to \<open>inner, inner + 1, \<dots>\<close> (container).\<close>

record id_range =
  inner_start :: u32
  outer_start :: u32
  range_length :: u32

definition covers :: "id_range \<Rightarrow> u32 \<Rightarrow> bool" where
  "covers r x \<longleftrightarrow> unat (outer_start r) \<le> unat x \<and> unat x < unat (outer_start r) + unat (range_length r)"

definition image_id :: "id_range \<Rightarrow> u32 \<Rightarrow> nat" where
  "image_id r x = unat (inner_start r) + (unat x - unat (outer_start r))"

text \<open>The first range that covers the id decides; an uncovered id is its own image.\<close>

definition id_lookup :: "id_range list \<Rightarrow> u32 \<Rightarrow> nat" where
  "id_lookup rs x = (case find (\<lambda>r. covers r x) rs of None \<Rightarrow> unat x | Some r \<Rightarrow> image_id r x)"

text \<open>
  The text of a map file: the kernel pads every field to ten columns, cntr's own helper
  does not pad (\<open>width = 0\<close>).
\<close>

definition padded :: "nat \<Rightarrow> nat \<Rightarrow> string" where
  "padded width n = replicate (width - length (show_nat n)) SP @ show_nat n"

definition range_line :: "nat \<Rightarrow> id_range \<Rightarrow> string" where
  "range_line w r = padded w (unat (inner_start r)) @ SP # padded w (unat (outer_start r))
                    @ SP # padded w (unat (range_length r))"

definition map_text :: "nat \<Rightarrow> id_range list \<Rightarrow> string" where
  "map_text w rs = concat (map (\<lambda>r. range_line w r @ [NL]) rs)"

lemma split_ws_replicate: "split_ws_from [] (replicate k SP @ s) = split_ws_from [] s"
  by (induction k) (simp_all add: split_ws_sep flush_word_def)

lemma split_ws_padded:
  "split_ws_from [] (padded w n @ SP # s) = show_nat n # split_ws_from [] s"
  by (simp add: padded_def split_ws_replicate split_ws_plain split_ws_sep show_nat_plain
      flush_word_def)

lemma split_ws_padded_end: "split_ws_from [] (padded w n) = [show_nat n]"
  using split_ws_plain [OF show_nat_plain, of "[]" n "[]"]
  by (simp add: padded_def split_ws_replicate split_ws_Nil flush_word_def)

lemma split_range_line:
  "split_whitespace (range_line w r) =
     [show_nat (unat (inner_start r)), show_nat (unat (outer_start r)), show_nat (unat (range_length r))]"
  by (simp add: split_whitespace_def range_line_def split_ws_padded split_ws_padded_end)

lemma length_split_range_line: "length (split_whitespace (range_line w r)) = 3"
  by (simp add: split_range_line)

lemma range_line_clean: "NL \<notin> set (range_line w r) \<and> CR \<notin> set (range_line w r)"
  by (auto simp: range_line_def padded_def show_nat_no_char)

lemma lines_map_text: "lines (map_text w rs) = map (range_line w) rs"
proof -
  have "map_text w rs = concat (map (\<lambda>l. l @ [NL]) (map (range_line w) rs))"
    by (simp add: map_text_def comp_def)
  then show ?thesis
    using lines_unlines [of "map (range_line w) rs"] by (simp add: list_all_iff range_line_clean)
qed

lemma translate_range_line:
  "translate_line path x (split_whitespace (range_line w r)) =
     (if \<not> covers r x then Inr None
      else if image_id r x < 2 ^ 32 then Inr (Some (of_nat (image_id r x)))
      else Inl (IdOverflow path (inner_start r) (x - outer_start r)))"
proof (cases "outer_start r \<le> x")
  case True
  have off: "unat (x - outer_start r) = unat x - unat (outer_start r)"
    using True by (rule unat_sub)
  have sub: "checked_sub x (outer_start r) = Some (x - outer_start r)"
    using True by (simp add: checked_sub_def)
  have cov: "covers r x \<longleftrightarrow> x - outer_start r < range_length r"
    using True by (auto simp: covers_def word_less_nat_alt word_le_nat_alt off)
  have "of_nat (image_id r x) = inner_start r + (x - outer_start r)"
    by (simp add: image_id_def flip: off)
  then show ?thesis
    by (auto simp: split_range_line translate_line_def parse_id_def parse_u32_show sub cov
        checked_add_def image_id_def off)
next
  case False
  then show ?thesis
    by (auto simp: split_range_line translate_line_def parse_id_def parse_u32_show covers_def
        checked_sub_def word_le_nat_alt)
qed

lemma translate_map_text:
  assumes "id_lookup rs x < 2 ^ 32"
  shows "translate_lines path x (lines (map_text w rs)) = Inr (of_nat (id_lookup rs x))"
proof -
  have "translate_lines path x (map (range_line w) rs) = Inr (of_nat (id_lookup rs x))"
    using assms
    by (induction rs) (auto simp: id_lookup_def translate_range_line length_split_range_line
        split: if_splits)
  then show ?thesis by (simp only: lines_map_text)
qed

lemma map_text_ascii: "utf8_valid (map_text w rs)"
proof (rule utf8_valid_all_ascii)
  have "list_all (\<lambda>c. code c < 128) (range_line w r)" for r
    using show_nat_plain by (auto simp: range_line_def padded_def list_all_iff plain_char_def)
  then show "list_all (\<lambda>c. code c < 128) (map_text w rs)"
    by (auto simp: map_text_def list_all_iff)
qed

text \<open>Every program of this component only opens files for reading and looks at metadata.\<close>

definition is_lookup_event :: "event \<Rightarrow> bool" where
  "is_lookup_event e = (case fst e of Open_read _ \<Rightarrow> True | Stat _ \<Rightarrow> True | _ \<Rightarrow> False)"

lemma emits_translate_id [emits_intros]: "emits is_lookup_event (translate_id p x)"
  unfolding translate_id_def by (intro emits_intros) (simp add: is_lookup_event_def)

lemma emits_status [emits_intros]: "emits is_lookup_event (status p m)"
proof -
  have "emits is_lookup_event (read_profile p m)"
    by (rule emits_mono [OF emits_read_profile])
      (auto simp: is_open_read_def is_lookup_event_def split: call.splits)
  then show ?thesis
    unfolding status_def by (intro emits_intros) (simp_all add: is_lookup_event_def)
qed

lemma plain_status [outcome_intros]: "{O_ret, O_err} \<subseteq> S \<Longrightarrow> ends_in S (status p m)"
  unfolding status_def translate_id_def by (intro outcome_intros) auto

section \<open>The whole file\<close>

lemma translate_map_text_total:
  "translate_lines path x (lines (map_text w rs)) = (case find (\<lambda>r. covers r x) rs of
      None \<Rightarrow> Inr x
    | Some r \<Rightarrow> if image_id r x < 2 ^ 32 then Inr (of_nat (image_id r x))
               else Inl (IdOverflow path (inner_start r) (x - outer_start r)))"
proof -
  have "translate_lines path x (map (range_line w) rs) = (case find (\<lambda>r. covers r x) rs of
      None \<Rightarrow> Inr x
    | Some r \<Rightarrow> if image_id r x < 2 ^ 32 then Inr (of_nat (image_id r x))
               else Inl (IdOverflow path (inner_start r) (x - outer_start r)))"
    by (induction rs) (auto simp: translate_range_line length_split_range_line)
  then show ?thesis by (simp only: lines_map_text)
qed

lemma translate_id_run:
  "translate_id path x K h = (let r = k_call K h (Open_read path); h1 = h @ [(Open_read path, r)] in
     case r of
       Inl e \<Rightarrow> (Err (Procfs_Read path e), h1)
     | Inr _ \<Rightarrow> (case stream_to_string (k_read K h1 path) of
           Inl e \<Rightarrow> (Err (Procfs_Read path e), h1)
         | Inr contents \<Rightarrow> (case translate_lines path x (lines contents) of
               Inl e \<Rightarrow> (Err e, h1) | Inr y \<Rightarrow> (Ret y, h1))))"
  by (auto simp: translate_id_def prog_simps Let_def split: sum.splits)

text \<open>Maps as the kernel accepts them: no id is in two ranges, on either side, and the images
  fit in 32 bits.\<close>

definition inner_covers :: "id_range \<Rightarrow> nat \<Rightarrow> bool" where
  "inner_covers r y \<longleftrightarrow> unat (inner_start r) \<le> y \<and> y < unat (inner_start r) + unat (range_length r)"

definition map_ok :: "id_range list \<Rightarrow> bool" where
  "map_ok rs \<longleftrightarrow> (\<forall>r \<in> set rs. unat (inner_start r) + unat (range_length r) \<le> 2 ^ 32) \<and>
     (\<forall>r \<in> set rs. \<forall>s \<in> set rs. \<forall>y. inner_covers r y \<longrightarrow> inner_covers s y \<longrightarrow> r = s)"

lemma image_inner: "covers r x \<Longrightarrow> inner_covers r (image_id r x)"
  by (auto simp: covers_def inner_covers_def image_id_def)

lemma image_inj: "covers r x \<Longrightarrow> covers r y \<Longrightarrow> image_id r x = image_id r y \<Longrightarrow> x = y"
  unfolding covers_def image_id_def word_unat_eq_iff by arith

lemma id_lookup_covered:
  assumes "map_ok rs" "list_ex (\<lambda>r. covers r x) rs"
  obtains r where "r \<in> set rs" "covers r x" "id_lookup rs x = image_id r x" "image_id r x < 2 ^ 32"
proof -
  from assms(2) obtain r where r: "find (\<lambda>r. covers r x) rs = Some r"
    by (cases "find (\<lambda>r. covers r x) rs") (auto simp: find_None_iff list_ex_iff)
  then have mem: "r \<in> set rs" "covers r x" by (auto simp: find_Some_iff)
  with image_inner assms(1) have "image_id r x < 2 ^ 32"
    by (fastforce simp: map_ok_def inner_covers_def)
  with mem r that show thesis by (simp add: id_lookup_def)
qed

definition cap_line :: "string \<Rightarrow> bool" where
  "cap_line l \<longleftrightarrow> split_on TAB l ! 0 = ''CapEff:''"

definition cap_value :: "string \<Rightarrow> io_error + string \<Rightarrow> u64 option" where
  "cap_value path l = (case l of Inl e \<Rightarrow> None
    | Inr t \<Rightarrow> if cap_line t then (case parse_cap path (last (split_on TAB t)) of Inl e \<Rightarrow> None | Inr c \<Rightarrow> Some c)
              else None)"

definition line_ok :: "string \<Rightarrow> io_error + string \<Rightarrow> bool" where
  "line_ok path l = (case l of Inl e \<Rightarrow> False
    | Inr t \<Rightarrow> 2 \<le> length (split_on TAB t) \<and> (cap_line t \<longrightarrow> cap_value path l \<noteq> None))"

lemma scan_status_iff:
  "scan_status path ls c0 = Inr caps \<longleftrightarrow> list_all (line_ok path) ls \<and>
     caps = (let cs = List.map_filter (cap_value path) ls in if cs = [] then c0 else Some (last cs))"
proof (induction ls arbitrary: c0)
  case Nil
  then show ?case by (auto simp: List.map_filter_def)
next
  case (Cons l ls)
  have step: "scan_status path (l # ls) c0 = Inr caps \<longleftrightarrow>
      line_ok path l \<and> scan_status path ls (case cap_value path l of None \<Rightarrow> c0 | Some c \<Rightarrow> Some c) = Inr caps"
    by (cases l) (auto simp: Let_def line_ok_def cap_line_def cap_value_def split: sum.splits if_splits)
  show ?case unfolding step Cons
    by (auto simp: List.map_filter_simps Let_def split: option.splits)
qed

section \<open>Properties\<close>

text \<open>C4: The translation of an id is the lookup in the map that the file describes: for every
  list of ranges, whatever the width the columns are padded to, the first range that covers
  the id decides; an image that does not fit in 32 bits is an error, and an id in no range
  is returned as it is. The only effect is the opening of the file.\<close>

theorem translate_id_refines:
  assumes "k_call K h (Open_read path) = Inr f"
    and "k_read K (h @ [(Open_read path, Inr f)]) path = (map_text w rs, None)"
  shows "translate_id path x K h = (case find (\<lambda>r. covers r x) rs of
      None \<Rightarrow> Ret x
    | Some r \<Rightarrow> if image_id r x < 2 ^ 32 then Ret (of_nat (image_id r x))
               else Err (IdOverflow path (inner_start r) (x - outer_start r)),
    h @ [(Open_read path, Inr f)])"
  using assms
  by (simp add: translate_id_run Let_def stream_to_string_def check_utf8_def map_text_ascii
      translate_map_text_total split: option.split)

theorem translate_id_refines_witness:
  "translate_id ''/m'' 100005 (sample\<lparr>k_read := (\<lambda>h p. (map_text 10
      [\<lparr>inner_start = 0, outer_start = 100000, range_length = 65536\<rparr>], None))\<rparr>) [] =
    (Ret 5, [(Open_read ''/m'', Inr 0)])"
proof -
  let ?r = "\<lparr>inner_start = 0, outer_start = 100000, range_length = 65536\<rparr>"
  have "covers ?r 100005" "image_id ?r 100005 = 5" by (simp_all add: covers_def image_id_def)
  then show ?thesis
    by (subst translate_id_refines [where f = 0 and w = 10 and rs = "[?r]"]) (simp_all add: sample_simps)
qed

text \<open>C33: Two different ids of the host that the container's map covers are never taken for
  the same id of the container, provided that the map is one the kernel accepts.\<close>

theorem translate_injective:
  assumes "map_ok rs" "list_ex (\<lambda>r. covers r x) rs" "list_ex (\<lambda>r. covers r y) rs"
    and "translate_lines path x (lines (map_text w rs)) = translate_lines path y (lines (map_text w rs))"
  shows "x = y"
proof -
  obtain r where r: "r \<in> set rs" "covers r x" "id_lookup rs x = image_id r x" "image_id r x < 2 ^ 32"
    using id_lookup_covered [OF assms(1,2)] .
  obtain s where s: "s \<in> set rs" "covers s y" "id_lookup rs y = image_id s y" "image_id s y < 2 ^ 32"
    using id_lookup_covered [OF assms(1,3)] .
  have eq: "of_nat (image_id r x) = (of_nat (image_id s y) :: u32)"
    using assms(4) r s by (simp add: translate_map_text)
  have "unat (of_nat n :: u32) = n" if "n < 2 ^ 32" for n using that by (simp add: unat_of_nat)
  with eq r(4) s(4) have "image_id r x = image_id s y" by metis
  moreover from this have "r = s"
    using assms(1) image_inner [OF r(2)] image_inner [OF s(2)] r(1) s(1) by (auto simp: map_ok_def)
  ultimately show ?thesis using image_inj r(2) s(2) by blast
qed

theorem translate_injective_witness:
  "translate_lines ''/m'' 7 (lines (map_text 0 [\<lparr>inner_start = 0, outer_start = 5, range_length = 10\<rparr>])) \<noteq>
   translate_lines ''/m'' 8 (lines (map_text 0 [\<lparr>inner_start = 0, outer_start = 5, range_length = 10\<rparr>]))"
proof
  let ?rs = "[\<lparr>inner_start = 0, outer_start = 5, range_length = 10\<rparr> :: id_range]"
  assume "translate_lines ''/m'' 7 (lines (map_text 0 ?rs)) = translate_lines ''/m'' 8 (lines (map_text 0 ?rs))"
  from translate_injective [OF _ _ _ this] show False
    by (simp add: map_ok_def covers_def)
qed

text \<open>The capability mask of the status is that of the last \<open>CapEff:\<close> line: the scan of the
  file succeeds exactly when every line can be read and has two columns at least and every
  \<open>CapEff:\<close> line holds a hexadecimal number of 64 bits, and then the value of the last of
  these lines is the result.\<close>

theorem scan_status_last:
  "scan_status path ls None = Inr caps \<longleftrightarrow> list_all (line_ok path) ls \<and>
     caps = (let cs = List.map_filter (cap_value path) ls in if cs = [] then None else Some (last cs))"
  by (rule scan_status_iff)

end
