(* ===== verification/Container_Setup.thy ===== *)
theory Container_Setup
  imports Cgroup Namespace Procfs Sample
begin

text \<open>
  \<open>capabilities.rs\<close> and \<open>container_setup.rs\<close>: the capability bounding set, the order in
  which the namespaces are entered, the credentials, and the three steps composed.
\<close>

section \<open>Capabilities\<close>

definition CAP_SYS_CHROOT :: nat where "CAP_SYS_CHROOT = 18"
definition CAP_SYS_PTRACE :: nat where "CAP_SYS_PTRACE = 19"

definition keep_mask :: "u64 \<Rightarrow> u64" where
  "keep_mask inheritable_capabilities =
     or (or inheritable_capabilities (push_bit CAP_SYS_CHROOT 1)) (push_bit CAP_SYS_PTRACE 1)"

definition drop_one :: "u64 \<Rightarrow> nat \<Rightarrow> (unit, 'e) prog" where
  "drop_one inheritable cap =
     (if and inheritable (push_bit cap 1) = 0
      then bindP (call (Drop_bounding (push_bit cap 1))) (\<lambda>_. retP ())
      else retP ())"

definition drop_caps :: "u64 \<Rightarrow> u64 \<Rightarrow> (unit, 'e) prog" where
  "drop_caps inheritable_capabilities lcap =
     (let max_cap = 64 - 1 in
      if \<not> lcap \<le> max_cap then panicP else
      let inheritable = keep_mask inheritable_capabilities in
      forP (drop_one inheritable) [0..<Suc (unat lcap)])"

lemma and_bit_zero_iff: "and (w :: u64) (2 ^ c) = 0 \<longleftrightarrow> \<not> bit w c"
  by (simp add: and_exp_eq_0_iff_not_bit)

lemma bit_shifted_one: "c < 64 \<Longrightarrow> bit (push_bit n (1 :: u64)) c \<longleftrightarrow> c = n"
  by (auto simp: push_bit_of_1 bit_exp_iff)

lemma bit_keep_mask:
  "c < 64 \<Longrightarrow> bit (keep_mask w) c \<longleftrightarrow> bit w c \<or> c = CAP_SYS_CHROOT \<or> c = CAP_SYS_PTRACE"
  unfolding keep_mask_def bit_or_iff by (auto simp only: bit_shifted_one)

text \<open>The capabilities that are dropped, in the order of the loop.\<close>

definition dropped_caps :: "u64 \<Rightarrow> u64 \<Rightarrow> nat list" where
  "dropped_caps eff lcap =
     filter (\<lambda>c. \<not> bit eff c \<and> c \<noteq> CAP_SYS_CHROOT \<and> c \<noteq> CAP_SYS_PTRACE) [0..<Suc (unat lcap)]"

lemma drop_one_run:
  "drop_one m c K h =
     (if bit m c then (Ret (), h)
      else (Ret (), h @ [(Drop_bounding (push_bit c 1), k_call K h (Drop_bounding (push_bit c 1)))]))"
  by (simp add: drop_one_def and_bit_zero_iff prog_simps)

lemma for_drop:
  "\<exists>rs. length rs = length (filter (\<lambda>c. \<not> bit m c) cs) \<and>
     (forP (drop_one m) cs :: (unit, 'e) prog) K h =
       (Ret (), h @ zip (map (\<lambda>c. Drop_bounding (push_bit c 1)) (filter (\<lambda>c. \<not> bit m c) cs)) rs)"
proof (induction cs arbitrary: h)
  case Nil
  then show ?case by (simp add: prog_simps)
next
  case (Cons c cs)
  show ?case
  proof (cases "bit m c")
    case True
    with Cons [of h] show ?thesis by (simp add: drop_one_run bindP_run)
  next
    case False
    let ?e = "(Drop_bounding (push_bit c 1), k_call K h (Drop_bounding (push_bit c 1)))"
    from Cons [of "h @ [?e]"] obtain rs where
      rs: "length rs = length (filter (\<lambda>c. \<not> bit m c) cs)" and
      run: "(forP (drop_one m) cs :: (unit, 'e) prog) K (h @ [?e]) =
       (Ret (), (h @ [?e])
                @ zip (map (\<lambda>c. Drop_bounding (push_bit c 1)) (filter (\<lambda>c. \<not> bit m c) cs)) rs)"
      by blast
    have "(forP (drop_one m) (c # cs) :: (unit, 'e) prog) K h = (forP (drop_one m) cs :: (unit, 'e) prog) K (h @ [?e])"
      using False by (simp add: drop_one_run bindP_run)
    also note run
    finally have "(forP (drop_one m) (c # cs) :: (unit, 'e) prog) K h = (Ret (), h @ zip
        (map (\<lambda>c. Drop_bounding (push_bit c 1)) (c # filter (\<lambda>c. \<not> bit m c) cs)) (snd ?e # rs))"
      by (simp only: append_assoc list.map zip_Cons_Cons append_Cons append_Nil fst_conv snd_conv)
    moreover have "filter (\<lambda>c. \<not> bit m c) (c # cs) = c # filter (\<lambda>c. \<not> bit m c) cs"
      using False by simp
    ultimately show ?thesis using rs by (metis length_Cons)
  qed
qed

lemma drop_caps_run:
  assumes "lcap \<le> 63"
  shows "\<exists>rs. length rs = length (dropped_caps eff lcap) \<and>
     (drop_caps eff lcap :: (unit, 'e) prog) K h =
       (Ret (), h @ zip (map (\<lambda>c. Drop_bounding (push_bit c 1)) (dropped_caps eff lcap)) rs)"
proof -
  have "unat lcap \<le> 63" using assms by (simp add: word_le_nat_alt)
  then have "filter (\<lambda>c. \<not> bit (keep_mask eff) c) [0..<Suc (unat lcap)] = dropped_caps eff lcap"
    unfolding dropped_caps_def by (intro filter_cong) (auto simp: bit_keep_mask)
  moreover have "\<not> \<not> lcap \<le> 64 - 1" using assms by simp
  ultimately show ?thesis
    using for_drop [of "keep_mask eff" "[0..<Suc (unat lcap)]" K h]
    by (simp only: drop_caps_def Let_def if_not_P not_not simp_thms if_False)
qed

lemma drop_caps_panics: "\<not> lcap \<le> 63 \<Longrightarrow> drop_caps eff lcap K h = (Panic, h)"
  by (simp add: drop_caps_def prog_simps)

section \<open>\<open>container_setup.rs\<close>\<close>

datatype setup_error =
    Setup_MountNamespaceUnsupported
  | Setup_Namespace namespace_error
  | Setup_Cgroup cgroup_error
  | SetGid io_error
  | SetUid io_error

definition setup_step :: "string set \<Rightarrow> pid \<Rightarrow> Kind \<Rightarrow> namespace list \<times> bool \<Rightarrow>
    (namespace list \<times> bool, namespace_error) prog" where
  "setup_step supported container_pid kind acc = (case acc of (nss, user_ns_entered) \<Rightarrow>
     if kname kind \<notin> supported then retP (nss, user_ns_entered) else
     bindP (is_same kind container_pid) (\<lambda>same.
     if same then retP (nss, user_ns_entered) else
     bindP (ns_open kind container_pid) (\<lambda>ns.
     let entered = (if kname kind = kname USER then True else user_ns_entered) in
     retP (nss @ [ns], entered))))"

definition enter_namespaces :: "pid \<Rightarrow> (bool, setup_error) prog" where
  "enter_namespaces container_pid =
     bindP (map_errP Setup_Namespace supported_namespaces) (\<lambda>supported.
     if kname MOUNT \<notin> supported then throwP Setup_MountNamespaceUnsupported else
     bindP (map_errP Setup_Namespace (ns_open MOUNT container_pid)) (\<lambda>mount_namespace.
     bindP (map_errP Setup_Namespace (foldP (setup_step supported container_pid) other_kinds ([], False)))
       (\<lambda>(other_namespaces, user_ns_entered).
     bindP (map_errP Setup_Namespace (ns_apply mount_namespace)) (\<lambda>_.
     bindP (forP (\<lambda>ns. map_errP Setup_Namespace (ns_apply ns)) other_namespaces) (\<lambda>_.
     retP user_ns_entered)))))"

definition apply_security_context :: "proc_status \<Rightarrow> bool \<Rightarrow> (unit, setup_error) prog" where
  "apply_security_context process_status in_user_namespace =
     bindP (if in_user_namespace then
              bindP (call (Set_groups [])) (\<lambda>_.
              bindP (tryP SetGid (call (Set_gid (ps_gid process_status)))) (\<lambda>_.
              bindP (tryP SetUid (call (Set_uid (ps_uid process_status)))) (\<lambda>_. retP ())))
            else retP ()) (\<lambda>_.
     drop_caps (effective_capabilities process_status) (last_cap process_status))"

definition enter_container :: "proc_status \<Rightarrow> (unit, setup_error) prog" where
  "enter_container process_status =
     bindP (askP (\<lambda>K h. k_getpid K h)) (\<lambda>self.
     bindP (map_errP Setup_Cgroup (move_to self (global_pid process_status))) (\<lambda>_.
     bindP (enter_namespaces (global_pid process_status)) (\<lambda>in_user_ns.
     apply_security_context process_status in_user_ns)))"

section \<open>The two loops over the namespaces\<close>

text \<open>
  The exec loop is the attach loop plus a flag, and the flag says whether a user
  namespace was opened: both callers see the same list.
\<close>

definition has_user_ns :: "namespace list \<Rightarrow> bool" where
  "has_user_ns nss \<longleftrightarrow> list_ex (\<lambda>ns. kname (ns_kind ns) = kname USER) nss"

lemma setup_fold_eq:
  "foldP (setup_step av p) ks (acc, has_user_ns acc) =
   bindP (foldP (open_step av p) ks acc) (\<lambda>nss. retP (nss, has_user_ns nss))"
proof (induction ks arbitrary: acc)
  case Nil
  then show ?case by simp
next
  case (Cons k ks)
  have step: "setup_step av p k (acc, has_user_ns acc) =
      bindP (open_step av p k acc) (\<lambda>nss. retP (nss, has_user_ns nss))"
    by (rule ext)+ (auto simp: setup_step_def open_step_def has_user_ns_def prog_simps ns_open_def
        Let_def split: res.splits prod.splits sum.splits)
  show ?case by (simp add: step bind_assoc Cons)
qed

definition open_setup :: "string set \<Rightarrow> pid \<Rightarrow> (namespace list, namespace_error) prog" where
  "open_setup av p = bindP (foldP (setup_step av p) other_kinds ([], False)) (\<lambda>(nss, _). retP nss)"

lemma open_setup_eq: "open_setup av p = open_other_namespaces av p"
proof -
  have "foldP (setup_step av p) other_kinds ([], False) =
      bindP (open_other_namespaces av p) (\<lambda>nss. retP (nss, has_user_ns nss))"
    using setup_fold_eq [of av p other_kinds "[]"]
    by (simp add: has_user_ns_def open_other_namespaces_def)
  then have "open_setup av p = bindP (open_other_namespaces av p) retP"
    by (simp add: open_setup_def bind_assoc)
  then show ?thesis by (simp add: bindP_def retP_def fun_eq_iff split: prod.splits res.splits)
qed

interpretation setup_opener: namespace_opener open_setup
  unfolding open_setup_eq by (rule opener.namespace_opener_axioms)

lemma setup_fold_Ret:
  "foldP (setup_step av p) other_kinds ([], False) K h = (Ret (nss, u), h') \<longleftrightarrow>
     open_other_namespaces av p K h = (Ret nss, h') \<and> u = has_user_ns nss"
  using setup_fold_eq [of av p other_kinds "[]"]
  by (auto simp: has_user_ns_def open_other_namespaces_def prog_inv)

section \<open>Decomposition of a successful run\<close>

lemma for_map_err: "forP (\<lambda>x. map_errP g (f x)) xs = map_errP g (forP f xs)"
proof (induction xs)
  case (Cons x xs)
  then show ?case
    by (auto simp: fun_eq_iff prog_simps split: prod.splits res.splits)
qed (simp add: fun_eq_iff prog_simps)

lemma enter_namespaces_Ret:
  assumes "enter_namespaces p K h = (Ret u, h')"
  shows "\<exists>look mnt nss rs. h' = h @ look @ zip (map (\<lambda>ns. Setns (ns_file ns)) (mnt # nss)) rs \<and>
     list_all is_ns_lookup look \<and>
     length rs = Suc (length nss) \<and> list_all (\<lambda>r. \<exists>n. r = Inr n) rs \<and>
     ns_kind mnt = MOUNT \<and> subseq (map ns_kind nss) other_kinds \<and> u = has_user_ns nss \<and>
     (\<forall>ns \<in> set (mnt # nss).
        (Open_read (ns_path K (ns_kind ns) p), Inr (ns_file ns)) \<in> set (h @ look))"
proof -
  from assms obtain av mnt nss h1 h2 h3 h4 where
    sup: "supported_namespaces K h = (Ret av, h1)" and
    mo: "ns_open MOUNT p K h1 = (Ret mnt, h2)" and
    op: "open_other_namespaces av p K h2 = (Ret nss, h3)" and u: "u = has_user_ns nss" and
    ma: "ns_apply mnt K h3 = (Ret (), h4)" and
    ap: "forP ns_apply nss K h4 = (Ret (), h')"
    by (auto simp: enter_namespaces_def prog_inv setup_fold_Ret for_map_err split: if_splits)
  from emitsD [OF emits_supported sup] obtain s1 where s1: "h1 = h @ s1" "list_all is_ns_lookup s1" by blast
  from mo obtain fd where m: "h2 = h1 @ [(Open_read (ns_path K MOUNT p), Inr fd)]"
    "mnt = \<lparr>ns_kind = MOUNT, ns_file = fd\<rparr>" by (auto simp: ns_open_Ret)
  from emitsD [OF opener.opn_emits op] obtain s3 where s3: "h3 = h2 @ s3" "list_all is_ns_lookup s3" by blast
  from ma obtain n where n: "h4 = h3 @ [(Setns (ns_file mnt), Inr n)]" by (auto simp: ns_apply_Ret)
  from for_apply_Ret [OF ap] obtain rs where rs: "length rs = length nss"
    "list_all (\<lambda>r. \<exists>n. r = Inr n) rs" "h' = h4 @ zip (map (\<lambda>ns. Setns (ns_file ns)) nss) rs" by blast
  let ?look = "s1 @ [(Open_read (ns_path K MOUNT p), Inr fd)] @ s3"
  have look: "h3 = h @ ?look" "list_all is_ns_lookup ?look"
    using s1 m s3 by (auto simp: is_ns_lookup_def)
  show ?thesis
  proof (intro exI conjI)
    show "h' = h @ ?look @ zip (map (\<lambda>ns. Setns (ns_file ns)) (mnt # nss)) (Inr n # rs)"
      using look n rs by simp
    have "(Open_read (ns_path K (ns_kind mnt) p), Inr (ns_file mnt)) \<in> set h3"
      by (simp add: s3 m)
    then show "\<forall>ns \<in> set (mnt # nss).
        (Open_read (ns_path K (ns_kind ns) p), Inr (ns_file ns)) \<in> set (h @ ?look)"
      unfolding look(1) [symmetric] using opener.opn_opened [OF op] by simp
  qed (use look rs m u opener.opn_kinds [OF op] in auto)
qed

definition cred_events :: "proc_status \<Rightarrow> bool \<Rightarrow> event list \<Rightarrow> bool" where
  "cred_events ps b cred \<longleftrightarrow>
     (if b then \<exists>r n m. cred = [(Set_groups [], r), (Set_gid (ps_gid ps), Inr n), (Set_uid (ps_uid ps), Inr m)]
      else cred = [])"

definition drop_events :: "proc_status \<Rightarrow> event list \<Rightarrow> bool" where
  "drop_events ps s \<longleftrightarrow>
     map fst s = map (\<lambda>c. Drop_bounding (push_bit c 1)) (dropped_caps (effective_capabilities ps) (last_cap ps))"

lemma security_context_creds:
  assumes "apply_security_context ps b K h = (Ret u, h')"
  shows "\<exists>cred. cred_events ps b cred \<and>
     (drop_caps (effective_capabilities ps) (last_cap ps) :: (unit, setup_error) prog) K (h @ cred) = (Ret u, h')"
proof (cases b)
  case True
  let ?g = "k_call K h (Set_groups [])"
  from assms True have "\<exists>n m. (drop_caps (effective_capabilities ps) (last_cap ps) :: (unit, setup_error) prog) K
       (h @ [(Set_groups [], ?g), (Set_gid (ps_gid ps), Inr n), (Set_uid (ps_uid ps), Inr m)]) = (Ret u, h')"
    by (auto simp: apply_security_context_def prog_inv)
  with True show ?thesis by (auto simp: cred_events_def)
next
  case False
  with assms show ?thesis
    by (intro exI [of _ "[]"]) (simp add: apply_security_context_def cred_events_def)
qed

lemma apply_security_context_Ret:
  assumes "apply_security_context ps b K h = (Ret u, h')"
  shows "last_cap ps \<le> 63 \<and> (\<exists>cred drops. h' = h @ cred @ drops \<and> cred_events ps b cred \<and> drop_events ps drops)"
proof -
  from security_context_creds [OF assms] obtain cred where cred: "cred_events ps b cred" and
    run: "(drop_caps (effective_capabilities ps) (last_cap ps) :: (unit, setup_error) prog) K (h @ cred) = (Ret u, h')"
    by blast
  have le: "last_cap ps \<le> 63"
  proof (rule ccontr)
    assume n: "\<not> last_cap ps \<le> 63"
    show False using run by (simp add: drop_caps_panics [OF n])
  qed
  from drop_caps_run [OF le] obtain rs where
    rs: "length rs = length (dropped_caps (effective_capabilities ps) (last_cap ps))" and
    "(drop_caps (effective_capabilities ps) (last_cap ps) :: (unit, setup_error) prog) K (h @ cred) =
      (Ret (), (h @ cred) @ zip (map (\<lambda>c. Drop_bounding (push_bit c 1))
                 (dropped_caps (effective_capabilities ps) (last_cap ps))) rs)"
    by blast
  with run have "h' = h @ cred @ zip (map (\<lambda>c. Drop_bounding (push_bit c 1))
                 (dropped_caps (effective_capabilities ps) (last_cap ps))) rs"
    by simp
  moreover have "drop_events ps (zip (map (\<lambda>c. Drop_bounding (push_bit c 1))
                 (dropped_caps (effective_capabilities ps) (last_cap ps))) rs)"
    unfolding drop_events_def using rs by (subst map_fst_zip) simp_all
  ultimately show ?thesis using le cred by blast
qed

text \<open>Entering changes nothing but the namespaces; lookups come first.\<close>

definition is_security_event :: "event \<Rightarrow> bool" where
  "is_security_event e = (case fst e of
      Set_groups gs \<Rightarrow> gs = [] | Set_gid _ \<Rightarrow> True | Set_uid _ \<Rightarrow> True | Drop_bounding _ \<Rightarrow> True | _ \<Rightarrow> False)"

lemma emits_drop_caps [emits_intros]: "emits is_security_event (drop_caps i l)"
  unfolding drop_caps_def drop_one_def by (intro emits_intros) (simp add: is_security_event_def)

lemma emits_security_context [emits_intros]: "emits is_security_event (apply_security_context ps b)"
  unfolding apply_security_context_def by (intro emits_intros) (simp_all add: is_security_event_def)

lemma ends_drop_caps [outcome_intros]: "{O_ret, O_panic} \<subseteq> S \<Longrightarrow> ends_in S (drop_caps i l)"
  unfolding drop_caps_def drop_one_def by (intro outcome_intros) auto

lemma ends_security_context [outcome_intros]:
  "{O_ret, O_err, O_panic} \<subseteq> S \<Longrightarrow> ends_in S (apply_security_context ps b)"
  unfolding apply_security_context_def by (intro outcome_intros) auto

section \<open>The three steps\<close>

lemma enter_container_Ret:
  assumes "enter_container ps K h = (Ret u, h')"
  shows "\<exists>cg look (mnt :: namespace) nss rs cred drops.
    h' = h @ cg @ look @ zip (map (\<lambda>ns. Setns (ns_file ns)) (mnt # nss)) rs @ cred @ drops \<and>
    list_all (cgroup_event (k_getpid K h)) cg \<and> list_all is_ns_lookup look \<and>
    length rs = Suc (length nss) \<and> list_all (\<lambda>r. \<exists>n. r = Inr n) rs \<and>
    ns_kind mnt = MOUNT \<and> subseq (map ns_kind nss) other_kinds \<and>
    cred_events ps (has_user_ns nss) cred \<and> drop_events ps drops"
proof -
  from assms obtain h1 h2 b where
    cg: "move_to (k_getpid K h) (global_pid ps) K h = (Ret (), h1)" and
    ns: "enter_namespaces (global_pid ps) K h1 = (Ret b, h2)" and
    sec: "apply_security_context ps b K h2 = (Ret u, h')"
    by (auto simp: enter_container_def prog_inv)
  from emitsD [OF top.mv_emits cg] obtain s where s: "h1 = h @ s" "list_all (cgroup_event (k_getpid K h)) s"
    by blast
  from enter_namespaces_Ret [OF ns] obtain look mnt nss rs where
    n: "h2 = h1 @ look @ zip (map (\<lambda>ns. Setns (ns_file ns)) (mnt # nss)) rs" "list_all is_ns_lookup look"
     "length rs = Suc (length nss)" "list_all (\<lambda>r. \<exists>n. r = Inr n) rs"
     "ns_kind mnt = MOUNT" "subseq (map ns_kind nss) other_kinds" "b = has_user_ns nss"
    by blast
  from apply_security_context_Ret [OF sec] obtain cred drops where
    c: "h' = h2 @ cred @ drops" "cred_events ps b cred" "drop_events ps drops" by blast
  show ?thesis
    by (rule exI [of _ s], rule exI [of _ look], rule exI [of _ mnt], rule exI [of _ nss], rule exI [of _ rs],
        rule exI [of _ cred], rule exI [of _ drops]) (use s n c in simp)
qed

lemma subseq_user_last:
  assumes "subseq ks other_kinds"
  shows "USER \<in> set (butlast ks) \<Longrightarrow> False" "distinct ks" "MOUNT \<notin> set ks"
proof -
  have d: "distinct other_kinds" by (simp add: other_kinds_def kind_defs)
  show "distinct ks" by (rule subseq_distinct [OF assms d])
  show "MOUNT \<notin> set ks" using subseq_set [OF assms] by (auto simp: other_kinds_def kind_defs)
  assume "USER \<in> set (butlast ks)"
  then obtain xs y ys where "ks = xs @ USER # y # ys"
    by (metis append_butlast_last_id append_Cons append_assoc butlast.simps(1) empty_iff list.set(1)
        list.exhaust split_list append_Nil)
  with assms have "subseq (USER # y # ys) other_kinds" by (metis subseq_tail)
  then show False by (simp add: other_kinds_def kind_defs)
qed

section \<open>Properties\<close>

text \<open>C22: The namespaces are opened twice in the code, by a loop of \<open>attach\<close> and by a longer one of
  \<open>exec\<close>. The two are equivalent: in every state they make the same calls with the same
  outcome and give the same namespaces, and the extra flag of the longer one says whether a
  user namespace is among them.\<close>

theorem namespace_loops_agree:
  "foldP (setup_step supported pid) other_kinds ([], False) =
   bindP (open_other_namespaces supported pid)
     (\<lambda>nss. retP (nss, list_ex (\<lambda>ns. kname (ns_kind ns) = kname USER) nss))"
  using setup_fold_eq [of supported pid other_kinds "[]"]
  by (simp add: has_user_ns_def open_other_namespaces_def)


definition sample_ns :: kernel where
  "sample_ns = sample\<lparr>k_dir := (\<lambda>h p. Inr [Inr ''mnt'', Inr ''pid'', Inr ''user''])\<rparr>"

lemma sample_enter_namespaces: "\<exists>h'. enter_namespaces 7 sample_ns h = (Ret True, h')"
proof -
  have "utf8_valid ''mnt''" "utf8_valid ''pid''" "utf8_valid ''user''" by code_simp+
  then show ?thesis
    by (simp add: enter_namespaces_def supported_namespaces_def prog_simps sample_ns_def sample_simps kind_defs
        other_kinds_def ns_open_def ns_apply_def setup_step_def is_same_def)
qed


text \<open>C14: The capability bounding set: exactly the capabilities 0 to \<open>last_cap\<close> that the
  container's process does not have are dropped, except those that the exec command needs
  (SYS_CHROOT) and SYS_PTRACE, each once and in increasing order, and failures to drop one
  are ignored. A \<open>last_cap\<close> above 63 panics before anything is dropped.\<close>

theorem drop_caps_exact:
  "\<exists>s. (drop_caps eff lcap :: (unit, 'e) prog) K h = (if lcap \<le> 63 then Ret () else Panic, h @ s) \<and>
     map fst s = (if lcap \<le> 63 then map (\<lambda>c. Drop_bounding (push_bit c 1)) (dropped_caps eff lcap) else [])"
proof (cases "lcap \<le> 63")
  case True
  from drop_caps_run [OF True, where 'e = 'e] obtain rs where
    "length rs = length (dropped_caps eff lcap)"
    "(drop_caps eff lcap :: (unit, 'e) prog) K h =
       (Ret (), h @ zip (map (\<lambda>c. Drop_bounding (push_bit c 1)) (dropped_caps eff lcap)) rs)" by blast
  with True show ?thesis
    by (intro exI [of _ "zip (map (\<lambda>c. Drop_bounding (push_bit c 1)) (dropped_caps eff lcap)) rs"])
      (simp add: map_fst_zip)
next
  case False
  then show ?thesis by (simp add: drop_caps_panics)
qed

text \<open>C2: Credentials fail closed: the group id is set before the user id and both before any
  capability is dropped; when one of them cannot be set, the error is returned at once and
  nothing after it is attempted. Without a user namespace the ids are left alone.\<close>

theorem security_context_fails_closed:
  "case apply_security_context ps b K h of
     (Ret u, h') \<Rightarrow> last_cap ps \<le> 63 \<and>
       (\<exists>cred drops. h' = h @ cred @ drops \<and> cred_events ps b cred \<and> drop_events ps drops)
   | (Err e, h') \<Rightarrow> b \<and>
       ((\<exists>d r. e = SetGid d \<and> h' = h @ [(Set_groups [], r), (Set_gid (ps_gid ps), Inl d)]) \<or>
        (\<exists>d r n. e = SetUid d \<and> h' = h @ [(Set_groups [], r), (Set_gid (ps_gid ps), Inr n), (Set_uid (ps_uid ps), Inl d)]))
   | (Panic, h') \<Rightarrow> 63 < last_cap ps \<and> (\<exists>cred. h' = h @ cred \<and> cred_events ps b cred)
   | _ \<Rightarrow> False"
proof -
  obtain r h' where run: "apply_security_context ps b K h = (r, h')" by fastforce
  have "outcome_of r \<in> {O_ret, O_err, O_panic}"
    using ends_inD [OF ends_security_context run] by blast
  then consider (Ret) u where "r = Ret u" | (Err) e where "r = Err e" | (Panic) "r = Panic"
    by (cases r) auto
  then show ?thesis
  proof cases
    case Ret
    then show ?thesis using run apply_security_context_Ret [of ps b K h u h'] by simp
  next
    case Err
    have no: "(drop_caps x y :: (unit, setup_error) prog) K h1 \<noteq> (Err e, h2)" for x y h1 h2 e
    proof -
      have "ends_in {O_ret, O_panic} (drop_caps x y :: (unit, setup_error) prog)" by (rule ends_drop_caps) simp
      from ends_inD [OF this] show ?thesis by fastforce
    qed
    show ?thesis
      by (simp only: run Err prod.case res.case)
        (use run [unfolded Err] in \<open>auto simp: apply_security_context_def prog_inv no split: if_splits\<close>)
  next
    case Panic
    have no: "63 < last_cap ps \<and> h2 = h1"
      if "(drop_caps (effective_capabilities ps) (last_cap ps) :: (unit, setup_error) prog) K h1 = (Panic, h2)" for h1 h2
    proof (cases "last_cap ps \<le> 63")
      case True
      with that drop_caps_run [of "last_cap ps" "effective_capabilities ps" K h1, where 'e = setup_error]
      show ?thesis by auto
    next
      case False
      then have "(drop_caps (effective_capabilities ps) (last_cap ps) :: (unit, setup_error) prog) K h1 = (Panic, h1)"
        by (rule drop_caps_panics)
      with that False show ?thesis by simp
    qed
    show ?thesis
      by (simp only: run Panic prod.case res.case)
        (use run [unfolded Panic] in
          \<open>auto simp: apply_security_context_def prog_inv cred_events_def split: if_splits dest!: no\<close>)
  qed
qed


definition sample_status :: proc_status where
  "sample_status = \<lparr>global_pid = 7, effective_capabilities = 1, last_cap = 1, ps_uid = 0, ps_gid = 0,
     ps_lsm_profile = None\<rparr>"

lemma sample_move_to: "\<exists>h'. move_to p q sample_ns h = (Ret (), h')"
proof -
  have "reader_lines ([], None) = []" by code_simp
  then show ?thesis
    by (simp add: move_to_def create_manager_def prog_simps Let_def sample_ns_def sample_simps
        choose_manager_def manager_move_to_def null_move_to_def)
qed

lemma sample_security:
  "\<exists>h'. apply_security_context sample_status True sample_ns h = (Ret (), h')"
  by (simp add: apply_security_context_def prog_simps sample_ns_def sample_simps sample_status_def
      drop_caps_def drop_one_run Let_def)

lemma sample_enter: "\<exists>h'. enter_container sample_status sample_ns [] = (Ret (), h')"
proof -
  obtain h1 where 1: "move_to (k_getpid sample_ns []) 7 sample_ns [] = (Ret (), h1)" using sample_move_to by blast
  obtain h2 where 2: "enter_namespaces 7 sample_ns h1 = (Ret True, h2)" using sample_enter_namespaces by blast
  obtain h3 where 3: "apply_security_context sample_status True sample_ns h2 = (Ret (), h3)"
    using sample_security by blast
  have "global_pid sample_status = 7" by (simp add: sample_status_def)
  with 1 2 3 show ?thesis by (simp add: enter_container_def prog_simps)
qed


end
