(* ===== verification/Cmd.thy ===== *)
theory Cmd
  imports Procfs Sample
begin

text \<open>
  \<open>cmd.rs\<close>: the command that runs in the container and its environment, taken from
  \<open>/proc/<pid>/environ\<close>, and the two ways of executing it: in the overlay (attach) and
  after a chroot to the container's root (exec).
\<close>

section \<open>Model\<close>

datatype cmd_error =
    OpenEnviron string io_error
  | ReadContainerRoot string io_error
  | Cmd_Exec string io_error

record cmd =
  environment :: environ
  command :: string
  arguments :: "string list"
  home :: "string option"
  container_root :: string

text \<open>\<open>BufRead::split(0)\<close>: a trailing piece counts only when it is not empty.\<close>

definition environ_pieces :: "string \<Rightarrow> string list" where
  "environ_pieces data = (let ps = split_on NUL data in
     butlast ps @ (if last ps = [] then [] else [last ps]))"

definition environ_entry :: "string \<Rightarrow> (string \<times> string) option" where
  "environ_entry var = (let tuple = splitn2 (CHR ''='') var in
     if length tuple \<noteq> 2 then None else Some (tuple ! 0, tuple ! 1))"

text \<open>\<open>collect\<close> into a \<open>HashMap\<close>: a later entry replaces an earlier one.\<close>

definition collect_map :: "(string \<times> string) list \<Rightarrow> environ" where
  "collect_map kvs = map_of (rev kvs)"

definition parse_environ :: "string \<Rightarrow> environ" where
  "parse_environ data = collect_map (List.map_filter environ_entry (environ_pieces data))"

text \<open>
  A read error does not end the iterator and is skipped by \<open>filter_map\<close>, so an error that
  every read repeats makes the loop run forever.
\<close>

definition read_environment :: "pid \<Rightarrow> (environ, cmd_error) prog" where
  "read_environment pid =
     bindP (askP (\<lambda>K h. path_join (pid_dir K pid) ''environ'')) (\<lambda>path.
     bindP (tryP (OpenEnviron path) (open_stream path)) (\<lambda>(data, tail).
     case tail of Some e \<Rightarrow> hangP | None \<Rightarrow> retP (parse_environ data)))"

fun find_path :: "string list \<Rightarrow> string option" where
  "find_path [] = None"
| "find_path (line # ls) =
     (case strip_prefix ''PATH='' (trim line) of
        None \<Rightarrow> find_path ls
      | Some v \<Rightarrow> (let path_value = trim_matches (CHR 0x27) (trim_matches (CHR 0x22) v) in
                 if path_value \<noteq> [] then Some path_value else find_path ls))"

definition read_container_path :: "string \<Rightarrow> (string option, 'e) prog" where
  "read_container_path croot =
     bindP (read_to_string (path_join croot ''etc/environment'')) (\<lambda>r. case r of
         Inl e \<Rightarrow> retP None
       | Inr contents \<Rightarrow> retP (find_path (lines contents)))"

definition default_path :: string where
  "default_path = ''/usr/local/sbin:/usr/local/bin:/usr/sbin:/usr/bin:/sbin:/bin''"

definition Cmd_new :: "string option \<Rightarrow> string list \<Rightarrow> pid \<Rightarrow> string option \<Rightarrow> (cmd, cmd_error) prog" where
  "Cmd_new command_opt args pid home_opt =
     (let argv = (if command_opt = None then [''-l''] else args) in
      bindP (askP (\<lambda>K h. case command_opt of Some c \<Rightarrow> c | None \<Rightarrow>
               (case env_var K ''SHELL'' of Some s \<Rightarrow> s | None \<Rightarrow> ''sh''))) (\<lambda>comm.
      bindP (read_environment pid) (\<lambda>variables.
      let proc_root_path = ''/proc/'' @ show_int pid @ ''/root'' in
      bindP (tryP (ReadContainerRoot proc_root_path) (read_link proc_root_path)) (\<lambda>croot.
      retP \<lparr>environment = variables, command = comm, arguments = argv, home = home_opt,
            container_root = croot\<rparr>))))"

definition env_default :: "string \<Rightarrow> string \<Rightarrow> cmd \<Rightarrow> cmd" where
  "env_default key v c = (if environment c key = None
     then c\<lparr>environment := (environment c)(key \<mapsto> v)\<rparr> else c)"

text \<open>
  \<open>Command::new(cmd).args(a).envs(e).exec()\<close>: \<open>envs\<close> adds to the environment that cntr
  itself was started with. It returns only the error of a failed \<open>execve\<close>.
\<close>

definition exec_command :: "string \<Rightarrow> string list \<Rightarrow> environ \<Rightarrow> (io_error, 'e) prog" where
  "exec_command comm args env =
     bindP (askP (\<lambda>K h. k_env K ++ env)) (\<lambda>full. execP (Execve comm args full))"

definition exec_in_overlay :: "cmd \<Rightarrow> (unit, cmd_error) prog" where
  "exec_in_overlay self =
     bindP (askP (\<lambda>K h. case var_os K ''PATH'' of Some p \<Rightarrow> p | None \<Rightarrow> default_path)) (\<lambda>path.
     let env1 = (environment self)(''PATH'' \<mapsto> path);
         env2 = (case home self of Some home_path \<Rightarrow> env1(''HOME'' \<mapsto> home_path) | None \<Rightarrow> env1) in
     bindP (exec_command (command self) (arguments self) env2) (\<lambda>err.
     throwP (Cmd_Exec (command self) err)))"

text \<open>The closure given to \<open>pre_exec\<close>: chroot, chdir, then the AppArmor profile.\<close>

definition pre_exec :: "string \<Rightarrow> (string \<times> string) option \<Rightarrow> (unit, io_error) prog" where
  "pre_exec croot lsm =
     bindP (tryP id (call (Chroot croot))) (\<lambda>_.
     bindP (tryP id (call (Chdir ''/''))) (\<lambda>_.
     case lsm of
       None \<Rightarrow> retP ()
     | Some (path, lbl) \<Rightarrow>
         bindP (tryP id (call (Open_write path))) (\<lambda>file.
         bindP (tryP id (call (Write_all file (''changeprofile '' @ lbl)))) (\<lambda>_. retP ()))))"

definition exec_in_container :: "cmd \<Rightarrow> (string \<times> string) option \<Rightarrow> (unit, cmd_error) prog" where
  "exec_in_container self lsm =
     bindP (if environment self ''PATH'' = None
            then bindP (read_container_path (container_root self)) (\<lambda>p.
                 retP ((environment self)(''PATH'' \<mapsto> (case p of Some v \<Rightarrow> v | None \<Rightarrow> default_path))))
            else retP (environment self)) (\<lambda>env.
     bindP (attemptP (pre_exec (container_root self) lsm)) (\<lambda>r. case r of
         Inl e \<Rightarrow> throwP (Cmd_Exec (command self) e)
       | Inr _ \<Rightarrow>
           bindP (exec_command (command self) (arguments self) env) (\<lambda>err.
           throwP (Cmd_Exec (command self) err))))"

section \<open>The environment as an abstract map\<close>

text \<open>The kernel's rendering of an environment: \<open>key=value\<close>, each ended by a NUL.\<close>

definition environ_text :: "(string \<times> string) list \<Rightarrow> string" where
  "environ_text kvs = concat (map (\<lambda>(k, v). (k @ CHR ''='' # v) @ [NUL]) kvs)"

definition environ_ok :: "(string \<times> string) list \<Rightarrow> bool" where
  "environ_ok kvs \<longleftrightarrow> list_all (\<lambda>(k, v). CHR ''='' \<notin> set k \<and> NUL \<notin> set k \<and> NUL \<notin> set v) kvs"

lemma environ_entry_pair: "CHR ''='' \<notin> set k \<Longrightarrow> environ_entry (k @ CHR ''='' # v) = Some (k, v)"
  by (simp add: environ_entry_def splitn2_append)

lemma environ_pieces_text:
  assumes "environ_ok kvs"
  shows "environ_pieces (environ_text kvs) = map (\<lambda>(k, v). k @ CHR ''='' # v) kvs"
proof -
  let ?ls = "map (\<lambda>(k, v). k @ CHR ''='' # v) kvs"
  have render: "environ_text kvs = concat (map (\<lambda>l. l @ [NUL]) ?ls) @ []"
    by (simp add: environ_text_def comp_def case_prod_unfold)
  have "list_all (\<lambda>l. NUL \<notin> set l) ?ls"
    using assms by (auto simp: environ_ok_def list_all_iff)
  then have "split_on NUL (environ_text kvs) = ?ls @ [[]]"
    unfolding render by (subst split_on_unlines) simp_all
  then show ?thesis by (simp add: environ_pieces_def)
qed

lemma parse_environ_text:
  assumes "environ_ok kvs"
  shows "parse_environ (environ_text kvs) = map_of (rev kvs)"
proof -
  have "List.map_filter environ_entry (map (\<lambda>(k, v). k @ CHR ''='' # v) kvs) = kvs"
    using assms
    by (induction kvs) (auto simp: environ_ok_def environ_entry_pair List.map_filter_def)
  then show ?thesis
    using environ_pieces_text [OF assms] by (simp add: parse_environ_def collect_map_def)
qed

section \<open>Rules\<close>

definition is_cmd_lookup :: "event \<Rightarrow> bool" where
  "is_cmd_lookup e = (case fst e of Open_read _ \<Rightarrow> True | Read_link _ \<Rightarrow> True | _ \<Rightarrow> False)"

lemma emits_Cmd_new [emits_intros]: "emits is_cmd_lookup (Cmd_new c a p hm)"
  unfolding Cmd_new_def read_environment_def
  by (intro emits_intros) (simp_all add: is_cmd_lookup_def)

lemma ends_Cmd_new [outcome_intros]: "{O_ret, O_err, O_hang} \<subseteq> S \<Longrightarrow> ends_in S (Cmd_new c a p hm)"
  unfolding Cmd_new_def read_environment_def by (intro outcome_intros) auto

lemma ends_exec_command [outcome_intros]:
  "{O_ret, O_exec} \<subseteq> S \<Longrightarrow> ends_in S (exec_command c a e)"
  unfolding exec_command_def by (intro outcome_intros) auto

lemma ends_exec_in_overlay [outcome_intros]: "{O_err, O_exec} \<subseteq> S \<Longrightarrow> ends_in S (exec_in_overlay c)"
  unfolding exec_in_overlay_def by (intro outcome_intros) auto

lemma ends_exec_in_container [outcome_intros]:
  "{O_err, O_exec} \<subseteq> S \<Longrightarrow> ends_in S (exec_in_container c l)"
  unfolding exec_in_container_def read_container_path_def pre_exec_def
  by (intro outcome_intros) auto

lemma pre_exec_Ret:
  "pre_exec croot lsm K h = (Ret u, h') \<longleftrightarrow>
     (\<exists>n m. k_call K h (Chroot croot) = Inr n \<and>
        k_call K (h @ [(Chroot croot, Inr n)]) (Chdir ''/'') = Inr m \<and>
        (case lsm of
           None \<Rightarrow> h' = h @ [(Chroot croot, Inr n), (Chdir ''/'', Inr m)]
         | Some (path, lbl) \<Rightarrow> (\<exists>fd w.
             k_call K (h @ [(Chroot croot, Inr n), (Chdir ''/'', Inr m)]) (Open_write path) = Inr fd \<and>
             k_call K (h @ [(Chroot croot, Inr n), (Chdir ''/'', Inr m), (Open_write path, Inr fd)])
               (Write_all fd (''changeprofile '' @ lbl)) = Inr w \<and>
             h' = h @ [(Chroot croot, Inr n), (Chdir ''/'', Inr m), (Open_write path, Inr fd),
                       (Write_all fd (''changeprofile '' @ lbl), Inr w)])))"
  by (auto simp: pre_exec_def prog_inv split: option.splits)

lemma Cmd_new_Ret:
  assumes "Cmd_new c args p hm K h = (Ret cm, h')"
  shows "command cm = (case c of Some x \<Rightarrow> x | None \<Rightarrow> (case env_var K ''SHELL'' of Some s \<Rightarrow> s | None \<Rightarrow> ''sh'')) \<and>
    arguments cm = (if c = None then [''-l''] else args) \<and> home cm = hm"
  using assms by (auto simp: Cmd_new_def prog_inv Let_def)

lemma exec_command_Execed:
  "exec_command c a e K h = (Execed, h') \<longleftrightarrow>
     (\<exists>n. k_call K h (Execve c a (k_env K ++ e)) = Inr n \<and> h' = h @ [(Execve c a (k_env K ++ e), Inr n)])"
  by (auto simp: exec_command_def prog_inv)

text \<open>The environment that the overlay command gets on top of the program's own.\<close>

definition overlay_env :: "kernel \<Rightarrow> cmd \<Rightarrow> environ" where
  "overlay_env K cm =
     (let env1 = (environment cm)(''PATH'' \<mapsto> (case var_os K ''PATH'' of Some p \<Rightarrow> p | None \<Rightarrow> default_path)) in
      case home cm of Some d \<Rightarrow> env1(''HOME'' \<mapsto> d) | None \<Rightarrow> env1)"

lemma exec_in_overlay_Execed:
  "exec_in_overlay cm K h = (Execed, h') \<longleftrightarrow>
     (\<exists>n. h' = h @ [(Execve (command cm) (arguments cm) (k_env K ++ overlay_env K cm), Inr n)] \<and>
          k_call K h (Execve (command cm) (arguments cm) (k_env K ++ overlay_env K cm)) = Inr n)"
  by (auto simp: exec_in_overlay_def overlay_env_def prog_inv exec_command_Execed Let_def)

text \<open>The command's PATH: that of the container's process, else that of its
  \<open>/etc/environment\<close>, else the default; never that of the host.\<close>

definition profile_events :: "(string \<times> string) option \<Rightarrow> event list \<Rightarrow> bool" where
  "profile_events lsm s = (case lsm of
      None \<Rightarrow> s = []
    | Some (path, lbl) \<Rightarrow>
        \<exists>fd w. s = [(Open_write path, Inr fd), (Write_all fd (''changeprofile '' @ lbl), Inr w)])"

lemma pre_exec_events:
  assumes "pre_exec croot lsm K h = (Ret u, h')"
  shows "\<exists>n m s. h' = h @ [(Chroot croot, Inr n), (Chdir ''/'', Inr m)] @ s \<and> profile_events lsm s"
  using assms
  by (auto simp: pre_exec_Ret profile_events_def split: option.splits prod.splits)

lemma read_container_path_Ret:
  assumes "read_container_path root K h = (Ret p, h')"
  shows "\<exists>r. h' = h @ [(Open_read (path_join root ''etc/environment''), r)] \<and>
    (p = None \<or> (\<exists>contents. stream_to_string (k_read K h' (path_join root ''etc/environment'')) = Inr contents \<and>
       p = find_path (lines contents)))"
  using assms by (auto simp: read_container_path_def prog_inv prog_simps Let_def split: sum.splits)

definition container_env :: "kernel \<Rightarrow> cmd \<Rightarrow> hist \<Rightarrow> event list \<Rightarrow> environ \<Rightarrow> bool" where
  "container_env K cm h look env \<longleftrightarrow> (case environment cm ''PATH'' of
      Some p \<Rightarrow> look = [] \<and> env = environment cm
    | None \<Rightarrow> \<exists>r p. look = [(Open_read (path_join (container_root cm) ''etc/environment''), r)] \<and>
        env = (environment cm)(''PATH'' \<mapsto> p) \<and>
        (p = default_path \<or> (\<exists>contents. stream_to_string (k_read K (h @ look)
             (path_join (container_root cm) ''etc/environment'')) = Inr contents \<and> find_path (lines contents) = Some p)))"

lemma lookups_no_exec:
  "(read_container_path root :: (string option, 'e) prog) K h \<noteq> (Execed, h')"
  "pre_exec croot lsm K h \<noteq> (Execed, h')"
proof -
  have "ends_in {O_ret} (read_container_path root :: (string option, 'e) prog)"
    unfolding read_container_path_def by (intro outcome_intros) auto
  from ends_inD [OF this] show "(read_container_path root :: (string option, 'e) prog) K h \<noteq> (Execed, h')" by fastforce
  have "plain (pre_exec croot lsm)" unfolding pre_exec_def by (intro outcome_intros) auto
  from ends_inD [OF this] show "pre_exec croot lsm K h \<noteq> (Execed, h')" by fastforce
qed

lemma exec_in_container_Execed:
  assumes "exec_in_container cm lsm K h = (Execed, h')"
  shows "\<exists>look n m prof env e. h' = h @ look @ [(Chroot (container_root cm), Inr n), (Chdir ''/'', Inr m)] @ prof @
       [(Execve (command cm) (arguments cm) (k_env K ++ env), Inr e)] \<and>
     profile_events lsm prof \<and> container_env K cm h look env"
proof -
  from assms obtain env h1 h2 where
    env: "(if environment cm ''PATH'' = None
           then bindP (read_container_path (container_root cm)) (\<lambda>p.
                retP ((environment cm)(''PATH'' \<mapsto> (case p of Some v \<Rightarrow> v | None \<Rightarrow> default_path))))
           else retP (environment cm) :: (environ, cmd_error) prog) K h = (Ret env, h1)"
    and pre: "pre_exec (container_root cm) lsm K h1 = (Ret (), h2)"
    and ex: "(exec_command (command cm) (arguments cm) env :: (io_error, cmd_error) prog) K h2 = (Execed, h')"
    by (auto simp: exec_in_container_def prog_inv lookups_no_exec split: if_splits sum.splits)
      (metis old.unit.exhaust sum.exhaust)+
  from pre_exec_events [OF pre] obtain n m prof where
    h2: "h2 = h1 @ [(Chroot (container_root cm), Inr n), (Chdir ''/'', Inr m)] @ prof" "profile_events lsm prof"
    by blast
  from ex obtain e where h': "h' = h2 @ [(Execve (command cm) (arguments cm) (k_env K ++ env), Inr e)]"
    by (auto simp: exec_command_Execed)
  have "\<exists>look. h1 = h @ look \<and> container_env K cm h look env"
  proof (cases "environment cm ''PATH''")
    case (Some p)
    with env show ?thesis by (simp add: prog_inv container_env_def)
  next
    case None
    with env obtain p where r: "(read_container_path (container_root cm) :: (_, cmd_error) prog) K h = (Ret p, h1)"
      and e: "env = (environment cm)(''PATH'' \<mapsto> (case p of Some v \<Rightarrow> v | None \<Rightarrow> default_path))"
      by (auto simp: prog_inv)
    from read_container_path_Ret [OF r] None e show ?thesis
      by (cases p) (auto simp: container_env_def, metis)
  qed
  then obtain look where "h1 = h @ look" "container_env K cm h look env" by blast
  with h2 h' show ?thesis by fastforce
qed

section \<open>Properties\<close>

text \<open>C30: The environment of the container's process is read back exactly: when the kernel
  presents the variables \<open>kvs\<close> as \<open>key=value\<close> strings ended by NUL bytes, the map has for
  each key the value of its last entry (values may contain \<open>=\<close> and line breaks).\<close>

theorem read_environment_roundtrip:
  assumes "environ_ok kvs"
    and "k_call K h (Open_read (path_join (pid_dir K p) ''environ'')) = Inr f"
    and "k_read K (h @ [(Open_read (path_join (pid_dir K p) ''environ''), Inr f)])
           (path_join (pid_dir K p) ''environ'') = (environ_text kvs, None)"
  shows "read_environment p K h =
     (Ret (map_of (rev kvs)), h @ [(Open_read (path_join (pid_dir K p) ''environ''), Inr f)])"
  using assms by (simp add: read_environment_def prog_simps Let_def parse_environ_text)

theorem read_environment_roundtrip_witness:
  "fst (read_environment 7 (sample\<lparr>k_read := (\<lambda>h p. (''PATH=/bin'' @ [NUL] @ ''OPTS=a=b'' @ [NUL], None))\<rparr>) [])
     = Ret [''PATH'' \<mapsto> ''/bin'', ''OPTS'' \<mapsto> ''a=b'']"
proof -
  have "environ_text [(''PATH'', ''/bin''), (''OPTS'', ''a=b'')] = ''PATH=/bin'' @ [NUL] @ ''OPTS=a=b'' @ [NUL]"
    by (simp add: environ_text_def)
  moreover have "environ_ok [(''PATH'', ''/bin''), (''OPTS'', ''a=b'')]"
    by (simp add: environ_ok_def)
  ultimately show ?thesis
    using read_environment_roundtrip [of "[(''PATH'', ''/bin''), (''OPTS'', ''a=b'')]"
        "sample\<lparr>k_read := (\<lambda>h p. (''PATH=/bin'' @ [NUL] @ ''OPTS=a=b'' @ [NUL], None))\<rparr>" "[]" 7 0]
    by (simp add: sample_simps fun_upd_twist)
qed

text \<open>C16: The exec command becomes the container's process in this order only: (reading
  \<open>/etc/environment\<close> of the container when it has no PATH,) chroot, change of directory,
  the AppArmor profile, execve; nothing after a failed step. Its PATH is the container
  process's own, or else from the container's \<open>/etc/environment\<close> or the default, and never
  the host's; all other variables of the container's process are passed on.\<close>

theorem exec_in_container_order:
  assumes "exec_in_container cm lsm K h = (Execed, h')"
  shows "\<exists>look n m prof env e. h' = h @ look @ [(Chroot (container_root cm), Inr n), (Chdir ''/'', Inr m)] @ prof @
       [(Execve (command cm) (arguments cm) env, Inr e)] \<and>
     profile_events lsm prof \<and>
     (\<forall>k. k \<noteq> ''PATH'' \<longrightarrow> environment cm k \<noteq> None \<longrightarrow> env k = environment cm k) \<and>
     (case environment cm ''PATH'' of
        Some p \<Rightarrow> look = [] \<and> env ''PATH'' = Some p
      | None \<Rightarrow> \<exists>r. look = [(Open_read (path_join (container_root cm) ''etc/environment''), r)] \<and>
          (env ''PATH'' = Some default_path \<or>
           (\<exists>contents v. stream_to_string (k_read K (h @ look) (path_join (container_root cm) ''etc/environment''))
              = Inr contents \<and> find_path (lines contents) = Some v \<and> env ''PATH'' = Some v)))"
proof -
  from exec_in_container_Execed [OF assms] obtain look n m prof env e where
    *: "h' = h @ look @ [(Chroot (container_root cm), Inr n), (Chdir ''/'', Inr m)] @ prof @
       [(Execve (command cm) (arguments cm) (k_env K ++ env), Inr e)]"
    "profile_events lsm prof" and env: "container_env K cm h look env" by blast
  have "\<forall>k. k \<noteq> ''PATH'' \<longrightarrow> environment cm k \<noteq> None \<longrightarrow> (k_env K ++ env) k = environment cm k"
    using env by (auto simp: container_env_def map_add_def split: option.splits)
  moreover have "case environment cm ''PATH'' of
        Some p \<Rightarrow> look = [] \<and> (k_env K ++ env) ''PATH'' = Some p
      | None \<Rightarrow> \<exists>r. look = [(Open_read (path_join (container_root cm) ''etc/environment''), r)] \<and>
          ((k_env K ++ env) ''PATH'' = Some default_path \<or>
           (\<exists>contents v. stream_to_string (k_read K (h @ look) (path_join (container_root cm) ''etc/environment''))
              = Inr contents \<and> find_path (lines contents) = Some v \<and> (k_env K ++ env) ''PATH'' = Some v))"
    using env by (auto simp: container_env_def map_add_def split: option.splits)
  ultimately show ?thesis using * by blast
qed

definition sample_cmd :: cmd where
  "sample_cmd = \<lparr>environment = [''LANG'' \<mapsto> ''C''], command = ''/bin/sh'', arguments = [], home = None,
     container_root = ''/c''\<rparr>"

theorem exec_in_container_order_witness:
  "\<exists>env h'. exec_in_container sample_cmd (Some (''/attr'', ''docker-default'')) sample [] = (Execed, h') \<and>
     (\<exists>e. last h' = (Execve ''/bin/sh'' [] env, Inr e)) \<and> env ''LANG'' = Some ''C''"
proof -
  have run: "exec_in_container sample_cmd (Some (''/attr'', ''docker-default'')) sample [] =
     (Execed, snd (exec_in_container sample_cmd (Some (''/attr'', ''docker-default'')) sample []))"
    by (simp add: exec_in_container_def sample_cmd_def pre_exec_def exec_command_def read_container_path_def
        prog_simps Let_def sample_simps stream_to_string_def check_utf8_def lines_def)
  from exec_in_container_order [OF run] show ?thesis
  proof (elim exE conjE)
    fix look n m prof env e
    assume h: "snd (exec_in_container sample_cmd (Some (''/attr'', ''docker-default'')) sample []) = [] @ look @
       [(Chroot (container_root sample_cmd), Inr n), (Chdir ''/'', Inr m)] @ prof @
       [(Execve (command sample_cmd) (arguments sample_cmd) env, Inr e)]"
      and v: "\<forall>k. k \<noteq> ''PATH'' \<longrightarrow> environment sample_cmd k \<noteq> None \<longrightarrow> env k = environment sample_cmd k"
    have "last (snd (exec_in_container sample_cmd (Some (''/attr'', ''docker-default'')) sample [])) =
        (Execve ''/bin/sh'' [] env, Inr e)"
      unfolding h by (simp add: sample_cmd_def)
    moreover have "env ''LANG'' = Some ''C''" using spec [OF v, of "''LANG''"] by (simp add: sample_cmd_def)
    ultimately show ?thesis using run by blast
  qed
qed

end
