(* ===== verification/Ipc.thy ===== *)
theory Ipc
  imports Prog_Logic
begin

text \<open>
  \<open>ipc.rs\<close>: the socket pair between the attach parent and the attach child. A message is a
  byte string together with at most \<open>MAX_FDS\<close> descriptors.
\<close>

section \<open>Model\<close>

datatype ipc_error =
    Ipc_Send io_error
  | Ipc_Receive io_error
  | Ipc_SocketPair io_error

record socket = sock_fd :: fd

definition MAX_FDS :: nat where "MAX_FDS = 2"

text \<open>More than \<open>MAX_FDS\<close> descriptors violate the assertion.\<close>

definition send :: "socket \<Rightarrow> string list \<Rightarrow> fd list \<Rightarrow> (unit, ipc_error) prog" where
  "send self messages files =
     (if \<not> length files \<le> MAX_FDS then panicP else
      bindP (tryP Ipc_Send (call (Sendmsg (sock_fd self) (concat messages) files))) (\<lambda>_. retP ()))"

text \<open>\<open>recvmsg\<close> is repeated while it answers \<open>EAGAIN\<close> or \<open>EINTR\<close>; the descriptors of all
  control messages are collected.\<close>

definition receive_step :: "socket \<Rightarrow> nat \<Rightarrow> unit \<Rightarrow> (unit + string \<times> fd list, ipc_error) prog" where
  "receive_step self message_length u =
     bindP (query (Recvmsg (sock_fd self) message_length)
              (\<lambda>K h. k_recv K h (sock_fd self) message_length)) (\<lambda>r. case r of
         Inl e \<Rightarrow> if e = EAGAIN \<or> e = EINTR then retP (Inl ()) else throwP (Ipc_Receive e)
       | Inr (bytes, cmsgs) \<Rightarrow> retP (Inr (bytes, concat cmsgs)))"

definition receive :: "socket \<Rightarrow> nat \<Rightarrow> (string \<times> fd list, ipc_error) prog" where
  "receive self message_length = loopP (receive_step self message_length) ()"

definition socket_pair :: "(socket \<times> socket, ipc_error) prog" where
  "socket_pair = bindP (tryP Ipc_SocketPair (query Socketpair (\<lambda>K h. k_pair K h Socketpair)))
     (\<lambda>(parent_fd, child_fd). retP (\<lparr>sock_fd = parent_fd\<rparr>, \<lparr>sock_fd = child_fd\<rparr>))"

section \<open>Rules\<close>

lemma send_Ret:
  "send s ms fs K h = (Ret u, h') \<longleftrightarrow> length fs \<le> MAX_FDS \<and>
     (\<exists>n. k_call K h (Sendmsg (sock_fd s) (concat ms) fs) = Inr n \<and>
          h' = h @ [(Sendmsg (sock_fd s) (concat ms) fs, Inr n)])"
  by (auto simp: send_def prog_inv)

lemma receive_now:
  "k_recv K h (sock_fd s) n = Inr (bytes, cmsgs) \<Longrightarrow>
   receive s n K h = (Ret (bytes, concat cmsgs), h @ [(Recvmsg (sock_fd s) n, Inr 0)])"
  by (simp add: receive_def loopP_unfold receive_step_def prog_simps)

text \<open>Every retry leaves one failed \<open>recvmsg\<close>; the message is that of the last call.\<close>

definition is_retry :: "fd \<Rightarrow> nat \<Rightarrow> event \<Rightarrow> bool" where
  "is_retry f n e \<longleftrightarrow> fst e = Recvmsg f n \<and> (snd e = Inl EAGAIN \<or> snd e = Inl EINTR)"

lemma receive_rounds:
  assumes "rounds (receive_step s n) K u h u' h'"
  shows "\<exists>t. h' = h @ t \<and> list_all (is_retry (sock_fd s) n) t"
  using assms
proof (induction rule: rounds.induct)
  case rounds_start
  show ?case by simp
next
  case (rounds_next s1 h1 s2 h2)
  then show ?case
    by (auto simp: receive_step_def prog_inv is_retry_def split: sum.splits if_splits)
qed

lemma receive_Ret:
  assumes "receive s n K h = (Ret (bytes, fds), h')"
  shows "\<exists>t cmsgs. list_all (is_retry (sock_fd s) n) t \<and> h' = h @ t @ [(Recvmsg (sock_fd s) n, Inr 0)] \<and>
    k_recv K (h @ t) (sock_fd s) n = Inr (bytes, cmsgs) \<and> fds = concat cmsgs"
proof -
  from loopP_rounds [of "receive_step s n" "()"] assms obtain u h1 where
    r: "rounds (receive_step s n) K () h u h1" and
    b: "receive_step s n u K h1 = (Ret (Inr (bytes, fds)), h')"
    unfolding receive_def by fastforce
  from receive_rounds [OF r] obtain t where t: "h1 = h @ t" "list_all (is_retry (sock_fd s) n) t"
    by blast
  with b show ?thesis
    by (auto simp: receive_step_def prog_inv split: sum.splits if_splits)
qed

lemma ends_send [outcome_intros]:
  "length fs \<le> MAX_FDS \<Longrightarrow> {O_ret, O_err} \<subseteq> S \<Longrightarrow> ends_in S (send s ms fs)"
  unfolding send_def by (intro outcome_intros) auto

lemma ends_receive [outcome_intros]: "{O_ret, O_err, O_hang} \<subseteq> S \<Longrightarrow> ends_in S (receive s n)"
  unfolding receive_def receive_step_def by (intro outcome_intros) auto

lemma ends_socket_pair [outcome_intros]: "{O_ret, O_err} \<subseteq> S \<Longrightarrow> ends_in S socket_pair"
  unfolding socket_pair_def by (intro outcome_intros) auto

end
