(* ===== verification/Pty.thy ===== *)
theory Pty
  imports Sample
begin

text \<open>
  \<open>pty.rs\<close>: the raw mode of the terminal, the loop that copies bytes between the terminal
  and the pseudo terminal, the propagation of the child's exit status, and the two ends of
  a pseudo terminal. A slice whose bounds are out of order or beyond the buffer panics, as
  it does in the code.
\<close>

section \<open>Model\<close>

datatype pty_error =
    GetTermios io_error
  | SetTermios io_error
  | Pty_Dup string io_error
  | OpenPtyMaster io_error
  | Pty_Grantpt io_error
  | Pty_Unlockpt io_error
  | Pty_Ptsname io_error
  | PtsnameNotUtf8
  | Pty_Setsid io_error
  | OpenPtySlave string io_error
  | Pty_Dup2 string io_error
  | WaitPid io_error
  | UnexpectedWaitEvent wait_status

definition BUF_SIZE :: nat where "BUF_SIZE = 8192"

datatype file_pair_state = FP_Write | FP_Read

record file_pair =
  fp_from :: fd
  fp_to :: fd
  fp_buf :: string
  read_offset :: nat
  write_offset :: nat
  fp_state :: file_pair_state

definition FilePair_new :: "fd \<Rightarrow> fd \<Rightarrow> file_pair" where
  "FilePair_new src dst = \<lparr>fp_from = src, fp_to = dst, fp_buf = replicate BUF_SIZE NUL,
     read_offset = 0, write_offset = 0, fp_state = FP_Read\<rparr>"

definition fp_write :: "file_pair \<Rightarrow> (file_pair \<times> bool, 'e) prog" where
  "fp_write self =
     (if \<not> (write_offset self \<le> read_offset self \<and> read_offset self \<le> length (fp_buf self)) then panicP else
      let slice = drop (write_offset self) (take (read_offset self) (fp_buf self)) in
      bindP (call (Write (fp_to self) slice)) (\<lambda>r. case r of
         Inr written \<Rightarrow>
           (let wo = write_offset self + written in
            if wo \<ge> read_offset self
            then retP (self\<lparr>read_offset := 0, write_offset := 0, fp_state := FP_Read\<rparr>, True)
            else retP (self\<lparr>write_offset := wo, fp_state := FP_Write\<rparr>, True))
       | Inl e \<Rightarrow> retP (self, False)))"

text \<open>The kernel overwrites the beginning of the buffer with the bytes it delivers.\<close>

definition fp_read :: "file_pair \<Rightarrow> (file_pair \<times> bool, 'e) prog" where
  "fp_read self =
     bindP (query (Read (fp_from self) (length (fp_buf self)))
              (\<lambda>K h. k_fdread K h (fp_from self) (length (fp_buf self)))) (\<lambda>r. case r of
         Inr data \<Rightarrow>
           fp_write (self\<lparr>fp_buf := take (length (fp_buf self)) data @ drop (length data) (fp_buf self),
                          read_offset := length data\<rparr>)
       | Inl e \<Rightarrow> retP (self, False))"

definition RAW_INPUT :: "tty_flags \<Rightarrow> u32" where
  "RAW_INPUT F = foldr or [IGNBRK F, BRKINT F, PARMRK F, ISTRIP F, INLCR F, IGNCR F, ICRNL F, IXON F] 0"

definition RAW_LOCAL :: "tty_flags \<Rightarrow> u32" where
  "RAW_LOCAL F = foldr or [ECHO F, ECHONL F, ICANON F, ISIG F, IEXTEN F] 0"

text \<open>\<open>remove(flags)\<close> is \<open>self & !flags\<close>, \<open>insert(flags)\<close> is \<open>self | flags\<close>.\<close>

definition make_raw :: "tty_flags \<Rightarrow> termios \<Rightarrow> termios" where
  "make_raw F attr = attr
     \<lparr>input_modes := and (input_modes attr) (not (RAW_INPUT F)),
      output_modes := and (output_modes attr) (not (OPOST F)),
      local_modes := and (local_modes attr) (not (RAW_LOCAL F)),
      control_modes := or (and (control_modes attr) (not (or (CSIZE F) (PARENB F)))) (CS8 F),
      vmin := 1, vtime := 0\<rparr>"

record raw_tty =
  rt_fd :: fd
  rt_attr :: termios

definition RawTty_new :: "fd \<Rightarrow> (raw_tty, pty_error) prog" where
  "RawTty_new stdin_fd =
     bindP (tryP GetTermios (query (Tcgetattr stdin_fd) (\<lambda>K h. k_termios K h stdin_fd))) (\<lambda>orig_attr.
     bindP (askP (\<lambda>K h. make_raw (k_flags K) orig_attr)) (\<lambda>attr.
     bindP (tryP SetTermios (call (Tcsetattr stdin_fd True attr))) (\<lambda>_.
     retP \<lparr>rt_fd = stdin_fd, rt_attr = orig_attr\<rparr>)))"

definition RawTty_drop :: "raw_tty \<Rightarrow> (unit, 'e) prog" where
  "RawTty_drop self = bindP (call (Tcsetattr (rt_fd self) False (rt_attr self))) (\<lambda>_. retP ())"

definition stdin :: fd where "stdin = 0"
definition stdout :: fd where "stdout = 1"
definition stderr :: fd where "stderr = 2"

definition get_winsize :: "(winsize, 'e) prog" where
  "get_winsize = bindP (query (Tcgetwinsize stdout) (\<lambda>K h. k_winsize K h stdout)) (\<lambda>r. case r of
      Inr ws \<Rightarrow> retP ws
    | Inl e \<Rightarrow> retP \<lparr>ws_row = 80, ws_col = 25, ws_xpixel = 0, ws_ypixel = 0\<rparr>)"

definition set_winsize :: "fd \<Rightarrow> winsize \<Rightarrow> (unit, 'e) prog" where
  "set_winsize pty_master ws = bindP (call (Tcsetwinsize pty_master ws)) (\<lambda>_. retP ())"

definition poll_fd :: "file_pair \<Rightarrow> fd \<times> bool" where
  "poll_fd p = (case fp_state p of FP_Read \<Rightarrow> (fp_from p, False) | FP_Write \<Rightarrow> (fp_to p, True))"

definition fp_service :: "file_pair \<Rightarrow> (file_pair \<times> bool, 'e) prog" where
  "fp_service p = (case fp_state p of FP_Read \<Rightarrow> fp_read p | FP_Write \<Rightarrow> fp_write p)"

text \<open>The body of the loop over the pairs; it stops at the first pair that is done.\<close>

fun service :: "file_pair list \<Rightarrow> bool list \<Rightarrow> (file_pair list \<times> bool, 'e) prog" where
  "service [] revents = retP ([], True)"
| "service (p # ps) [] = retP (p # ps, True)"
| "service (p # ps) (r # rs) =
     (if \<not> r then bindP (service ps rs) (\<lambda>(ps', more). retP (p # ps', more)) else
      bindP (fp_service p) (\<lambda>(p', more).
      if \<not> more then retP (p' # ps, False)
      else bindP (service ps rs) (\<lambda>(ps', more). retP (p' # ps', more))))"

definition update_winsize :: "fd option \<Rightarrow> winsize option \<Rightarrow> (winsize option, 'e) prog" where
  "update_winsize resize last_winsize = (case (resize, last_winsize) of
      (Some pty, Some lws) \<Rightarrow>
        bindP get_winsize (\<lambda>current.
        if ws_row current \<noteq> ws_row lws \<or> ws_col current \<noteq> ws_col lws
        then bindP (set_winsize pty current) (\<lambda>_. retP (Some current))
        else retP (Some lws))
    | _ \<Rightarrow> retP last_winsize)"

definition shovel_step :: "fd option \<Rightarrow> file_pair list \<times> winsize option \<Rightarrow>
    ((file_pair list \<times> winsize option) + unit, 'e) prog" where
  "shovel_step resize st = (case st of (pairs, last_winsize) \<Rightarrow>
     bindP (query (Poll (map poll_fd pairs) (resize \<noteq> None)) (\<lambda>K h. k_poll K h)) (\<lambda>r. case r of
         Inl e \<Rightarrow> if e = EINTR then retP (Inl (pairs, last_winsize)) else retP (Inr ())
       | Inr revents \<Rightarrow>
           bindP (update_winsize resize last_winsize) (\<lambda>last'.
           bindP (service pairs revents) (\<lambda>(pairs', more).
           if more then retP (Inl (pairs', last')) else retP (Inr ())))))"

definition shovel_init :: "fd option \<Rightarrow> (winsize option, 'e) prog" where
  "shovel_init resize = (case resize of
      Some pty \<Rightarrow> bindP get_winsize (\<lambda>ws. bindP (set_winsize pty ws) (\<lambda>_. retP (Some ws)))
    | None \<Rightarrow> retP None)"

definition shovel :: "file_pair list \<Rightarrow> fd option \<Rightarrow> (unit, 'e) prog" where
  "shovel pairs resize =
     bindP (shovel_init resize) (\<lambda>last_winsize. loopP (shovel_step resize) (pairs, last_winsize))"

definition isatty :: "fd \<Rightarrow> (bool, 'e) prog" where
  "isatty f = bindP (call (Isatty f)) (\<lambda>r. retP (case r of Inl e \<Rightarrow> False | Inr _ \<Rightarrow> True))"

definition dup_fd :: "string \<Rightarrow> fd \<Rightarrow> (fd, pty_error) prog" where
  "dup_fd what f = tryP (Pty_Dup what) (call (Dup f))"

definition forward_files :: "fd \<Rightarrow> bool \<Rightarrow> (unit, pty_error) prog" where
  "forward_files pty is_tty =
     bindP (dup_fd ''stdin'' stdin) (\<lambda>stdin_file.
     bindP (dup_fd ''stdout'' stdout) (\<lambda>stdout_file.
     bindP (dup_fd ''pty master'' pty) (\<lambda>pty_file.
     bindP (shovel [FilePair_new stdin_file pty_file, FilePair_new pty_file stdout_file]
              (if is_tty then Some pty else None)) (\<lambda>_. retP ()))))"

text \<open>\<open>_raw_tty\<close> lives until the end of the function, whatever ends it.\<close>

definition forward :: "fd \<Rightarrow> (unit, pty_error) prog" where
  "forward pty =
     bindP (isatty stdin) (\<lambda>is_tty.
     if is_tty then bindP (RawTty_new stdin) (\<lambda>raw. finallyP (forward_files pty is_tty) (RawTty_drop raw))
     else forward_files pty is_tty)"

definition stdio_is_tty :: "(bool, 'e) prog" where
  "stdio_is_tty = bindP (isatty stdin) (\<lambda>b. if b then isatty stdout else retP False)"

definition wait_step :: "pid \<Rightarrow> unit \<Rightarrow> (unit + unit, pty_error) prog" where
  "wait_step child_pid u =
     bindP (query (Waitpid child_pid True) (\<lambda>K h. k_wait K h child_pid)) (\<lambda>r. case r of
         Inr (Some status) \<Rightarrow>
           (if stopped status then
              bindP (askP (\<lambda>K h. k_getpid K h)) (\<lambda>self.
              bindP (call (Kill self SIGSTOP)) (\<lambda>_.
              bindP (call (Kill child_pid SIGCONT)) (\<lambda>_. retP (Inl ()))))
            else (case terminating_signal status of
                Some sig \<Rightarrow>
                  bindP (askP (\<lambda>K h. (k_named_signal K sig, k_getpid K h))) (\<lambda>(named, self).
                  bindP (case named of Some signal \<Rightarrow> bindP (call (Kill self signal)) (\<lambda>_. retP ())
                           | None \<Rightarrow> retP ()) (\<lambda>_.
                  exitP (128 + sig)))
              | None \<Rightarrow> (case exit_status status of
                    Some status_code \<Rightarrow> exitP status_code
                  | None \<Rightarrow> throwP (UnexpectedWaitEvent status))))
       | Inr None \<Rightarrow> retP (Inl ())
       | Inl e \<Rightarrow> if e = EINTR then retP (Inl ()) else throwP (WaitPid e))"

definition wait_for_child :: "pid \<Rightarrow> (unit, pty_error) prog" where
  "wait_for_child child_pid = loopP (wait_step child_pid) ()"

definition forward_pty_and_wait :: "fd \<Rightarrow> pid \<Rightarrow> (unit, pty_error) prog" where
  "forward_pty_and_wait pty child_pid =
     bindP (attemptP (forward pty)) (\<lambda>_. wait_for_child child_pid)"

definition open_ptm :: "(fd, pty_error) prog" where
  "open_ptm =
     bindP (tryP OpenPtyMaster (call Openpt)) (\<lambda>pty_master.
     bindP (tryP Pty_Grantpt (call (Grantpt pty_master))) (\<lambda>_.
     bindP (tryP Pty_Unlockpt (call (Unlockpt pty_master))) (\<lambda>_.
     retP pty_master)))"

definition attach_pts :: "fd \<Rightarrow> (unit, pty_error) prog" where
  "attach_pts pty_master =
     bindP (tryP Pty_Ptsname (query (Ptsname pty_master) (\<lambda>K h. k_ptsname K h pty_master))) (\<lambda>name.
     bindP (if utf8_valid name then retP name else throwP PtsnameNotUtf8) (\<lambda>pts_name.
     bindP (tryP Pty_Setsid (call Setsid)) (\<lambda>_.
     bindP (tryP (OpenPtySlave pts_name) (call (Open_rw pts_name))) (\<lambda>pty_slave.
     bindP (call (Tiocsctty pty_slave)) (\<lambda>_.
     bindP (tryP (Pty_Dup2 ''stdin'') (call (Dup2 pty_slave stdin))) (\<lambda>_.
     bindP (tryP (Pty_Dup2 ''stdout'') (call (Dup2 pty_slave stdout))) (\<lambda>_.
     bindP (tryP (Pty_Dup2 ''stderr'') (call (Dup2 pty_slave stderr))) (\<lambda>_.
     retP ()))))))))"

section \<open>What is copied\<close>

text \<open>
  \<open>reads_from K h s f\<close>: the bytes that the calls of \<open>s\<close>, made after \<open>h\<close>, have read from
  \<open>f\<close>; \<open>writes_to s f\<close>: the bytes that they have written to \<open>f\<close>. \<open>pending\<close> is what a pair has
  read and not yet written.
\<close>

fun reads_from :: "kernel \<Rightarrow> hist \<Rightarrow> hist \<Rightarrow> fd \<Rightarrow> string" where
  "reads_from K h [] f = []"
| "reads_from K h (e # s) f =
     (case e of (Read g n, r) \<Rightarrow> if g = f then (case k_fdread K h g n of Inr d \<Rightarrow> d | Inl _ \<Rightarrow> []) else []
      | _ \<Rightarrow> []) @ reads_from K (h @ [e]) s f"

definition written_by :: "fd \<Rightarrow> event \<Rightarrow> string" where
  "written_by f e = (case e of (Write g d, Inr w) \<Rightarrow> if g = f then take w d else [] | _ \<Rightarrow> [])"

definition writes_to :: "hist \<Rightarrow> fd \<Rightarrow> string" where
  "writes_to s f = concat (map (written_by f) s)"

definition pending :: "file_pair \<Rightarrow> string" where
  "pending p = drop (write_offset p) (take (read_offset p) (fp_buf p))"

text \<open>What the kernel promises: no more bytes than asked for are read or written.\<close>

definition honest_io :: "kernel \<Rightarrow> bool" where
  "honest_io K \<longleftrightarrow> (\<forall>h f n d. k_fdread K h f n = Inr d \<longrightarrow> length d \<le> n)
     \<and> (\<forall>h f d w. k_call K h (Write f d) = Inr w \<longrightarrow> w \<le> length d)"

text \<open>The invariant of a pair: its offsets are in order and within the buffer; and, between
  two rounds, a pair that waits for input has nothing left to write.\<close>

definition fp_bounds :: "file_pair \<Rightarrow> bool" where
  "fp_bounds p \<longleftrightarrow> length (fp_buf p) = BUF_SIZE \<and> write_offset p \<le> read_offset p \<and> read_offset p \<le> BUF_SIZE"

definition fp_ok :: "file_pair \<Rightarrow> bool" where
  "fp_ok p \<longleftrightarrow> fp_bounds p \<and> (fp_state p = FP_Read \<longrightarrow> read_offset p = 0 \<and> write_offset p = 0)"

definition ends :: "file_pair \<Rightarrow> fd \<times> fd" where
  "ends p = (fp_from p, fp_to p)"

definition copied :: "kernel \<Rightarrow> hist \<Rightarrow> hist \<Rightarrow> file_pair \<Rightarrow> bool" where
  "copied K h s p \<longleftrightarrow> reads_from K h s (fp_from p) = writes_to s (fp_to p) @ pending p"

text \<open>An event that is neither a read from the source nor a write to the sink of \<open>d\<close>.\<close>

definition apart :: "fd \<times> fd \<Rightarrow> event \<Rightarrow> bool" where
  "apart d e = (case fst e of Read f n \<Rightarrow> f \<noteq> fst d | Write f x \<Rightarrow> f \<noteq> snd d | _ \<Rightarrow> True)"

lemma reads_from_append: "reads_from K h (s @ t) f = reads_from K h s f @ reads_from K (h @ s) t f"
  by (induction s arbitrary: h) auto

lemma writes_to_append: "writes_to (s @ t) f = writes_to s f @ writes_to t f"
  by (simp add: writes_to_def)

lemma reads_from_apart: "list_all (apart d) s \<Longrightarrow> reads_from K h s (fst d) = []"
  by (induction s arbitrary: h) (auto simp: apart_def split: call.splits)

lemma writes_to_apart: "list_all (apart d) s \<Longrightarrow> writes_to s (snd d) = []"
  by (induction s) (auto simp: writes_to_def written_by_def apart_def split: call.splits sum.splits)

lemma copied_frame: "copied K h s p \<Longrightarrow> list_all (apart (ends p)) t \<Longrightarrow> copied K h (s @ t) p"
  using reads_from_apart [of "ends p" t K "h @ s"] writes_to_apart [of "ends p" t]
  by (simp add: copied_def ends_def reads_from_append writes_to_append)

lemma pending_length: "fp_bounds p \<Longrightarrow> length (pending p) \<le> BUF_SIZE"
  by (auto simp: fp_bounds_def pending_def)

section \<open>One pair\<close>

text \<open>The events of one pair: at most one read from its source and one write to its sink.\<close>

definition own :: "fd \<times> fd \<Rightarrow> event \<Rightarrow> bool" where
  "own d e = (case fst e of Read f n \<Rightarrow> f = fst d | Write f x \<Rightarrow> f = snd d | _ \<Rightarrow> False)"

lemma own_apart: "own d e \<Longrightarrow> fst d \<noteq> fst d' \<Longrightarrow> snd d \<noteq> snd d' \<Longrightarrow> apart d' e"
  by (auto simp: own_def apart_def split: call.splits)

definition pair_step_ok :: "kernel \<Rightarrow> hist \<Rightarrow> hist \<Rightarrow> file_pair \<Rightarrow>
    (file_pair \<times> bool, 'e) res \<times> hist \<Rightarrow> bool" where
  "pair_step_ok K h s p run \<longleftrightarrow> (\<exists>p' more t. run = (Ret (p', more), h @ s @ t) \<and> ends p' = ends p \<and>
     fp_bounds p' \<and> (more \<longrightarrow> fp_ok p') \<and> copied K h (s @ t) p' \<and> list_all (own (ends p)) t)"

lemma copied_written:
  assumes "copied K h s p" "ends p' = ends p" "pending p = take w (pending p) @ pending p'"
  shows "copied K h (s @ [(Write (fp_to p) (pending p), Inr w)]) p'"
proof -
  have "writes_to [(Write (fp_to p) (pending p), Inr w)] (fp_to p) = take w (pending p)"
    by (simp add: writes_to_def written_by_def)
  with assms show ?thesis
    by (simp add: copied_def ends_def reads_from_append writes_to_append)
qed

lemma fp_write_ok:
  assumes K: "honest_io K" and p: "fp_bounds p" and c: "copied K h s p"
  shows "pair_step_ok K h s p ((fp_write p :: (file_pair \<times> bool, 'e) prog) K (h @ s))"
proof (cases "k_call K (h @ s) (Write (fp_to p) (pending p))")
  case (Inl e)
  with p c have "(fp_write p :: (file_pair \<times> bool, 'e) prog) K (h @ s) = (Ret (p, False), h @ s @ [(Write (fp_to p) (pending p), Inl e)])"
    by (simp add: fp_write_def prog_simps fp_bounds_def pending_def Let_def)
  moreover have "copied K h (s @ [(Write (fp_to p) (pending p), Inl e)]) p"
    using c by (simp add: copied_def reads_from_append writes_to_append)
       (simp add: writes_to_def written_by_def)
  ultimately show ?thesis using p by (auto simp: pair_step_ok_def own_def ends_def)
next
  case (Inr w)
  let ?t = "[(Write (fp_to p) (pending p), Inr w)]"
  let ?p = "if write_offset p + w \<ge> read_offset p
    then p\<lparr>read_offset := 0, write_offset := 0, fp_state := FP_Read\<rparr>
    else p\<lparr>write_offset := write_offset p + w, fp_state := FP_Write\<rparr>"
  have w: "w \<le> length (pending p)" using K Inr by (auto simp: honest_io_def)
  have run: "(fp_write p :: (file_pair \<times> bool, 'e) prog) K (h @ s) = (Ret (?p, True), h @ s @ ?t)"
    using p Inr by (simp add: fp_write_def prog_simps fp_bounds_def pending_def Let_def)
  have "pending p = take w (pending p) @ pending ?p"
    using w p by (auto simp: pending_def fp_bounds_def add.commute)
      (metis append_take_drop_id drop_drop add.commute)
  then have "copied K h (s @ ?t) ?p"
    by (intro copied_written [OF c]) (simp_all add: ends_def)
  with run p show ?thesis
    by (auto simp: pair_step_ok_def own_def ends_def fp_ok_def fp_bounds_def)
qed

lemma fp_read_ok:
  assumes K: "honest_io K" and p: "fp_ok p" "fp_state p = FP_Read" and c: "copied K h s p"
  shows "pair_step_ok K h s p ((fp_read p :: (file_pair \<times> bool, 'e) prog) K (h @ s))"
proof (cases "k_fdread K (h @ s) (fp_from p) (length (fp_buf p))")
  case (Inl e)
  then show ?thesis using p c
    by (auto simp: fp_read_def prog_simps pair_step_ok_def own_def ends_def fp_ok_def copied_def
        reads_from_append writes_to_append) (simp add: writes_to_def written_by_def)
next
  case (Inr d)
  let ?e = "(Read (fp_from p) (length (fp_buf p)), Inr 0 :: io_error + nat)"
  let ?p = "p\<lparr>fp_buf := take (length (fp_buf p)) d @ drop (length d) (fp_buf p), read_offset := length d\<rparr>"
  have d: "length d \<le> BUF_SIZE" and len: "length (fp_buf p) = BUF_SIZE"
    using K Inr p by (auto simp: honest_io_def fp_ok_def fp_bounds_def)
  have b: "fp_bounds ?p" using d len p by (auto simp: fp_bounds_def fp_ok_def)
  have "pending p = []" "pending ?p = d" using p d len by (auto simp: pending_def fp_ok_def)
  then have "copied K h (s @ [?e]) ?p"
    using c Inr by (simp add: copied_def reads_from_append writes_to_append)
      (simp add: writes_to_def written_by_def)
  from fp_write_ok [OF K b this] have "pair_step_ok K h (s @ [?e]) ?p ((fp_write ?p :: (file_pair \<times> bool, 'e) prog) K (h @ s @ [?e]))"
    by simp
  moreover have "(fp_read p :: (file_pair \<times> bool, 'e) prog) K (h @ s) = fp_write ?p K (h @ s @ [?e])"
    using Inr by (simp add: fp_read_def prog_simps)
  ultimately show ?thesis
    by (auto simp: pair_step_ok_def ends_def own_def)
qed

section \<open>All pairs\<close>

definition all_copied :: "kernel \<Rightarrow> hist \<Rightarrow> hist \<Rightarrow> file_pair list \<Rightarrow> bool" where
  "all_copied K h s ps \<longleftrightarrow> list_all (\<lambda>p. fp_bounds p \<and> copied K h s p) ps"

text \<open>No source and no sink belongs to two pairs.\<close>

definition distinct_ends :: "(fd \<times> fd) list \<Rightarrow> bool" where
  "distinct_ends ds \<longleftrightarrow> distinct (map fst ds) \<and> distinct (map snd ds)"

definition own_some :: "(fd \<times> fd) list \<Rightarrow> event \<Rightarrow> bool" where
  "own_some ds e \<longleftrightarrow> list_ex (\<lambda>d. own d e) ds"

lemma own_some_apart:
  "own_some ds e \<Longrightarrow> fst d \<notin> fst ` set ds \<Longrightarrow> snd d \<notin> snd ` set ds \<Longrightarrow> apart d e"
  unfolding own_some_def list_ex_iff using own_apart by (metis imageI)

lemma own_some_single: "own_some [d] = own d"
  by (rule ext) (simp add: own_some_def)

lemma all_copied_frame:
  "all_copied K h s ps \<Longrightarrow> (\<And>p. p \<in> set ps \<Longrightarrow> list_all (apart (ends p)) t) \<Longrightarrow> all_copied K h (s @ t) ps"
  by (auto simp: all_copied_def list_all_iff intro!: copied_frame)

definition service_ok :: "kernel \<Rightarrow> hist \<Rightarrow> hist \<Rightarrow> file_pair list \<Rightarrow>
    (file_pair list \<times> bool, 'e) res \<times> hist \<Rightarrow> bool" where
  "service_ok K h s ps run \<longleftrightarrow> (\<exists>ps' more t. run = (Ret (ps', more), h @ s @ t) \<and>
     map ends ps' = map ends ps \<and> all_copied K h (s @ t) ps' \<and> (more \<longrightarrow> list_all fp_ok ps') \<and>
     list_all (own_some (map ends ps)) t)"

lemma pair_step:
  assumes "honest_io K" "fp_ok p" "copied K h s p"
  shows "pair_step_ok K h s p
    ((fp_service p :: (file_pair \<times> bool, 'e) prog) K (h @ s))"
  using assms by (cases "fp_state p") (auto intro: fp_read_ok fp_write_ok simp: fp_ok_def fp_service_def)

lemma service_more:
  fixes p' :: file_pair
  assumes t: "ends p' = ends p" "fp_bounds p'" "fp_ok p'" "copied K h (s @ t) p'"
      "list_all (own_some [ends p]) t"
    and rest: "service_ok K h (s @ t) ps ((service ps rs :: (file_pair list \<times> bool, 'e) prog) K (h @ s @ t))"
    and d: "distinct_ends (map ends (p # ps))"
  shows "service_ok K h s (p # ps)
     (bindP (service ps rs) (\<lambda>(ps', more). retP (p' # ps', more) :: (file_pair list \<times> bool, 'e) prog) K (h @ s @ t))"
proof -
  from rest obtain ps' more t2 where
    run: "(service ps rs :: (file_pair list \<times> bool, 'e) prog) K (h @ s @ t) = (Ret (ps', more), h @ s @ t @ t2)" and
    e: "map ends ps' = map ends ps" and c: "all_copied K h (s @ t @ t2) ps'" and
    m: "more \<longrightarrow> list_all fp_ok ps'" and o: "list_all (own_some (map ends ps)) t2"
    unfolding service_ok_def by auto
  have "fst (ends p) \<notin> fst ` set (map ends ps)" "snd (ends p) \<notin> snd ` set (map ends ps)"
    using d by (auto simp: distinct_ends_def)
  with o have "list_all (apart (ends p')) t2"
    unfolding t(1) list_all_iff by (blast intro: own_some_apart)
  from copied_frame [OF t(4) this] have "copied K h (s @ t @ t2) p'" by simp
  moreover have "list_all (own_some (map ends (p # ps))) (t @ t2)"
    using t(5) o by (auto simp: own_some_def list_all_iff)
  ultimately show ?thesis
    using run e c m t unfolding service_ok_def
    by (auto simp: bindP_run prog_simps all_copied_def)
qed

lemma service_ok:
  assumes K: "honest_io K"
  shows "all_copied K h s ps \<Longrightarrow> list_all fp_ok ps \<Longrightarrow> distinct_ends (map ends ps) \<Longrightarrow>
    service_ok K h s ps ((service ps rs :: (file_pair list \<times> bool, 'e) prog) K (h @ s))"
proof (induction ps rs arbitrary: s rule: service.induct)
  case (1 revents)
  then show ?case by (auto simp: service_ok_def prog_simps all_copied_def)
next
  case (2 p ps)
  then show ?case by (auto simp: service_ok_def prog_simps)
next
  case (3 p ps r rs)
  have p: "fp_ok p" "fp_bounds p" "copied K h s p" and ps: "all_copied K h s ps" "list_all fp_ok ps"
      "distinct_ends (map ends ps)"
    using 3 by (auto simp: all_copied_def distinct_ends_def)
  show ?case
  proof (cases r)
    case False
    have "service_ok K h s ps ((service ps rs :: (file_pair list \<times> bool, 'e) prog) K (h @ s))"
      using 3(1) False ps by simp
    with service_more [of p p K h s "[]" ps rs] p 3(5) False show ?thesis by simp
  next
    case True
    obtain p' more t where
      run: "(fp_service p :: (file_pair \<times> bool, 'e) prog) K (h @ s)
        = (Ret (p', more), h @ s @ t)" and
      p': "ends p' = ends p" "fp_bounds p'" "more \<longrightarrow> fp_ok p'" "copied K h (s @ t) p'"
        "list_all (own (ends p)) t"
      using pair_step [OF K p(1) p(3), where 'e = 'e] unfolding pair_step_ok_def by blast
    have o: "list_all (own_some [ends p]) t" using p'(5) by (simp add: own_some_single)
    have fr: "all_copied K h (s @ t) ps"
    proof (rule all_copied_frame [OF ps(1)])
      fix q assume "q \<in> set ps"
      with 3(5) have "fst (ends p) \<noteq> fst (ends q)" "snd (ends p) \<noteq> snd (ends q)"
        by (auto simp: distinct_ends_def)
      with p'(5) show "list_all (apart (ends q)) t" by (auto simp: list_all_iff intro: own_apart)
    qed
    show ?thesis
    proof (cases more)
      case True
      then have "service_ok K h (s @ t) ps ((service ps rs :: (file_pair list \<times> bool, 'e) prog) K (h @ s @ t))"
        using 3(2) \<open>r\<close> fr ps by (metis append.assoc)
      from service_more [OF p'(1,2) _ p'(4) o this 3(5)] True p' run \<open>r\<close>
      show ?thesis by (simp add: bindP_run)
    next
      case False
      have "list_all (own_some (map ends (p # ps))) t" using o by (auto simp: own_some_def list_all_iff)
      with False run \<open>r\<close> p' fr show ?thesis
        by (auto simp: service_ok_def bindP_run prog_simps all_copied_def)
    qed
  qed
qed

section \<open>The copying loop\<close>

abbreviation quiet :: "event \<Rightarrow> bool" where
  "quiet e \<equiv> \<forall>d. apart d e"

lemma emits_winsize [emits_intros]:
  "emits quiet get_winsize" "emits quiet (set_winsize f w)"
  unfolding get_winsize_def set_winsize_def by (intro emits_intros; simp add: apart_def)+

lemma ends_winsize [outcome_intros]:
  "O_ret \<in> S \<Longrightarrow> ends_in S get_winsize" "O_ret \<in> S \<Longrightarrow> ends_in S (set_winsize f w)"
  unfolding get_winsize_def set_winsize_def by (intro outcome_intros; simp)+

lemma quiet_run:
  assumes "emits quiet m" "ends_in {O_ret} m"
  obtains x t where "m K h = (Ret x, h @ t)" "list_all quiet t"
proof -
  obtain r h' where m: "m K h = (r, h')" by fastforce
  with emitsD [OF assms(1) m] ends_inD [OF assms(2) m] that show thesis by (cases r) auto
qed

lemma update_winsize_quiet: "emits quiet (update_winsize r l)" "ends_in {O_ret} (update_winsize r l)"
  unfolding update_winsize_def by (intro emits_intros outcome_intros; simp)+

lemma shovel_init_quiet: "emits quiet (shovel_init r)" "ends_in {O_ret} (shovel_init r)"
  unfolding shovel_init_def by (intro emits_intros outcome_intros; simp)+

lemma all_copied_quiet: "all_copied K h s ps \<Longrightarrow> list_all quiet t \<Longrightarrow> all_copied K h (s @ t) ps"
  by (rule all_copied_frame, assumption) (metis list_all_iff)

definition copied_state :: "kernel \<Rightarrow> hist \<Rightarrow> (fd \<times> fd) list \<Rightarrow> file_pair list \<Rightarrow> hist \<Rightarrow> bool" where
  "copied_state K h ds ps h' \<longleftrightarrow> (\<exists>s. h' = h @ s \<and> map ends ps = ds \<and> all_copied K h s ps)"

definition shovel_inv :: "kernel \<Rightarrow> hist \<Rightarrow> (fd \<times> fd) list \<Rightarrow> file_pair list \<times> winsize option \<Rightarrow> hist \<Rightarrow> bool" where
  "shovel_inv K h ds st h' \<longleftrightarrow> copied_state K h ds (fst st) h' \<and> list_all fp_ok (fst st)"

lemma shovel_step_inv:
  assumes K: "honest_io K" and d: "distinct_ends ds" and inv: "shovel_inv K h ds st h1"
    and run: "(shovel_step resize st :: (_, 'e) prog) K h1 = (r, h')"
  shows "(\<exists>st'. r = Ret (Inl st') \<and> shovel_inv K h ds st' h') \<or>
    (r = Ret (Inr ()) \<and> (\<exists>ps. copied_state K h ds ps h'))"
proof -
  obtain ps lw where st: "st = (ps, lw)" by fastforce
  from inv obtain s where s: "h1 = h @ s" "map ends ps = ds" "all_copied K h s ps" "list_all fp_ok ps"
    by (auto simp: shovel_inv_def copied_state_def st)
  let ?e = "(Poll (map poll_fd ps) (resize \<noteq> None), map_sum id (\<lambda>_. 0) (k_poll K h1)) :: event"
  have e: "list_all quiet [?e]" by (simp add: apart_def)
  from all_copied_quiet [OF s(3) e] have c1: "all_copied K h (s @ [?e]) ps" .
  show ?thesis
  proof (cases "k_poll K h1")
    case (Inl x)
    with run st have "h' = h1 @ [?e] \<and> r = (if x = EINTR then Ret (Inl st) else Ret (Inr ()))"
      by (simp add: shovel_step_def prog_simps split: if_splits)
    with s c1 st show ?thesis
      by (auto simp: shovel_inv_def copied_state_def)
  next
    case (Inr revents)
    obtain lw' t where u: "(update_winsize resize lw :: (_, 'e) prog) K (h1 @ [?e]) = (Ret lw', (h1 @ [?e]) @ t)"
      and t: "list_all quiet t"
      using quiet_run [OF update_winsize_quiet] by blast
    from all_copied_quiet [OF c1 t] have "all_copied K h (s @ [?e] @ t) ps" by simp
    from service_ok [OF K this s(4), where rs = revents and 'e = 'e] s(2) d
    obtain ps' more t2 where
      sv: "(service ps revents :: (_, 'e) prog) K (h @ s @ [?e] @ t) = (Ret (ps', more), h @ (s @ [?e] @ t) @ t2)" and
      ps': "map ends ps' = ds" "all_copied K h ((s @ [?e] @ t) @ t2) ps'" "more \<longrightarrow> list_all fp_ok ps'"
      unfolding service_ok_def by blast
    from run st Inr u sv s(1)
    have "h' = h @ (s @ [?e] @ t) @ t2 \<and> r = (if more then Ret (Inl (ps', lw')) else Ret (Inr ()))"
      by (simp add: shovel_step_def prog_simps split: if_splits)
    with ps' show ?thesis
      unfolding shovel_inv_def copied_state_def by (cases more) (auto simp del: append_assoc)
  qed
qed

lemma shovel_rounds_inv:
  assumes "rounds (shovel_step resize) K st h1 st' h1'" "honest_io K" "distinct_ends ds"
    "shovel_inv K h ds st h1"
  shows "shovel_inv K h ds st' h1'"
  using assms
proof (induction rule: rounds.induct)
  case (rounds_next s1 h1 s2 h2)
  from shovel_step_inv [OF rounds_next.prems(1,2) rounds_next.IH [OF rounds_next.prems] rounds_next.hyps(2)]
  show ?case by blast
qed

definition new_pairs :: "(fd \<times> fd) list \<Rightarrow> file_pair list" where
  "new_pairs ds = map (\<lambda>(a, b). FilePair_new a b) ds"

lemma new_pairs_inv:
  assumes "list_all quiet t"
  shows "shovel_inv K h ds (new_pairs ds, lw) (h @ t)"
proof -
  have "map ends (new_pairs ds) = ds"
    by (induction ds) (auto simp: new_pairs_def ends_def FilePair_new_def)
  moreover have "list_all fp_ok (new_pairs ds)" "all_copied K h [] (new_pairs ds)"
    by (auto simp: new_pairs_def FilePair_new_def list_all_iff fp_ok_def fp_bounds_def all_copied_def
        copied_def pending_def writes_to_def)
  ultimately show ?thesis
    using all_copied_quiet [of K h "[]" "new_pairs ds" t] assms
    by (auto simp: shovel_inv_def copied_state_def)
qed

lemma copied_stateD:
  assumes "copied_state K h ds ps h'" "(a, b) \<in> set ds"
  shows "\<exists>s rest. h' = h @ s \<and> reads_from K h s a = writes_to s b @ rest \<and> length rest \<le> BUF_SIZE"
proof -
  from assms obtain s where s: "h' = h @ s" "map ends ps = ds" "all_copied K h s ps"
    by (auto simp: copied_state_def)
  from assms(2) s(2) obtain p where "p \<in> set ps" "ends p = (a, b)" by (metis imageE set_map)
  with s show ?thesis
    by (auto simp: all_copied_def list_all_iff copied_def ends_def intro: pending_length)
qed

lemma shovel_cases:
  assumes K: "honest_io K" and d: "distinct_ends ds"
    and run: "(shovel (new_pairs ds) resize :: (unit, 'e) prog) K h = (r, h')"
  shows "r = Hangs \<or> (r = Ret () \<and> (\<exists>ps. copied_state K h ds ps h'))"
proof -
  obtain lw t where i: "(shovel_init resize :: (_, 'e) prog) K h = (Ret lw, h @ t)" and t: "list_all quiet t"
    using quiet_run [OF shovel_init_quiet] by blast
  with run have l: "loopP (shovel_step resize) (new_pairs ds, lw) K (h @ t) = (r, h')"
    by (simp add: shovel_def bindP_run)
  show ?thesis
  proof (cases "r = Hangs")
    case False
    let ?body = "shovel_step resize :: _ \<Rightarrow> (_, 'e) prog"
    from loopP_rounds [OF l False] obtain st1 h1 where
      rd: "rounds ?body K (new_pairs ds, lw) (h @ t) st1 h1" and
      fin: "?body st1 K h1 = (map_res Inr id r, h')" by blast
    from shovel_rounds_inv [OF rd K d new_pairs_inv [OF t]] have "shovel_inv K h ds st1 h1" .
    from shovel_step_inv [OF K d this fin] show ?thesis
      by (cases r) auto
  qed simp
qed

section \<open>The terminal\<close>

definition no_termios :: "event \<Rightarrow> bool" where
  "no_termios e = (case fst e of Tcsetattr _ _ _ \<Rightarrow> False | _ \<Rightarrow> True)"

lemma emits_fp_write [emits_intros]: "emits no_termios (fp_write p)"
  unfolding fp_write_def by (intro emits_intros) (simp_all add: no_termios_def)

lemma emits_fp_service [emits_intros]: "emits no_termios (fp_service p)"
  unfolding fp_service_def fp_read_def
  by (cases "fp_state p"; simp; intro emits_intros; simp add: no_termios_def)

lemma emits_service [emits_intros]: "emits no_termios (service ps rs)"
  by (induction ps rs rule: service.induct) (auto intro!: emits_intros)

lemma emits_forward_files [emits_intros]: "emits no_termios (forward_files pty is_tty)"
  unfolding forward_files_def dup_fd_def shovel_def shovel_init_def shovel_step_def update_winsize_def
    get_winsize_def set_winsize_def
  by (intro emits_intros) (simp_all add: no_termios_def)

lemma RawTty_drop_run:
  "RawTty_drop t K h = (Ret (), h @ [(Tcsetattr (rt_fd t) False (rt_attr t),
     k_call K h (Tcsetattr (rt_fd t) False (rt_attr t)))])"
  by (simp add: RawTty_drop_def prog_simps)

lemma RawTty_new_Ret:
  "RawTty_new f K h = (Ret t, h') \<longleftrightarrow> (\<exists>orig n. k_termios K h f = Inr orig \<and>
     k_call K (h @ [(Tcgetattr f, Inr 0)]) (Tcsetattr f True (make_raw (k_flags K) orig)) = Inr n \<and>
     t = \<lparr>rt_fd = f, rt_attr = orig\<rparr> \<and>
     h' = h @ [(Tcgetattr f, Inr 0), (Tcsetattr f True (make_raw (k_flags K) orig), Inr n)])"
  by (auto simp: RawTty_new_def prog_inv)

lemma ends_fp_write: "{O_ret, O_panic} \<subseteq> S \<Longrightarrow> ends_in S (fp_write p)"
  unfolding fp_write_def by (intro outcome_intros) auto

lemma ends_fp_service: "{O_ret, O_panic} \<subseteq> S \<Longrightarrow> ends_in S (fp_service p)"
  unfolding fp_service_def fp_read_def
  by (cases "fp_state p") (auto intro!: outcome_intros ends_fp_write)

lemma ends_service:
  "{O_ret, O_panic} \<subseteq> S \<Longrightarrow> ends_in S (service ps rs)"
proof (induction ps arbitrary: rs)
  case Nil
  then show ?case by (auto intro: outcome_intros)
next
  case prem: (Cons p ps)
  then have S: "insert O_ret S = S" and f: "ends_in S (fp_service p)"
    by (auto intro!: ends_fp_service)
  show ?case
  proof (cases rs)
    case Nil
    with prem show ?thesis by (auto intro: outcome_intros)
  next
    case (Cons r rs')
    from S f prem.IH [OF prem.prems] prem.prems show ?thesis
      unfolding \<open>rs = r # rs'\<close> service.simps
      by (intro ends_if ends_bind ends_prod ends_ret) auto
  qed
qed

lemma ends_forward_files [outcome_intros]:
  assumes "{O_ret, O_err, O_panic, O_hang} \<subseteq> S"
  shows "ends_in S (forward_files pty is_tty)"
proof -
  have "ends_in (insert O_ret S) (service ps rs)" for ps rs
    using assms by (intro ends_service) auto
  with assms show ?thesis
    unfolding forward_files_def dup_fd_def shovel_def shovel_init_def shovel_step_def update_winsize_def
      get_winsize_def set_winsize_def
    by (intro outcome_intros) (auto intro: ends_in_mono)
qed

text \<open>Raw mode is entered at most once, and what leaves the function leaves it restored.\<close>

lemma forward_tty:
  assumes run: "forward pty K h = (r, h')" "r \<noteq> Hangs"
    and tty: "k_call K h (Isatty stdin) = Inr i" "h1 = h @ [(Isatty stdin, Inr i)]"
    and raw: "RawTty_new stdin K h1 = (Ret t, h2)"
  shows "\<exists>s q. h' = h2 @ s @ [(Tcsetattr stdin False (rt_attr t), q)] \<and> list_all no_termios s"
proof -
  have t: "rt_fd t = stdin" using raw by (auto simp: RawTty_new_Ret)
  have f: "finallyP (forward_files pty True) (RawTty_drop t) K h2 = (r, h')"
    using run(1) tty raw by (simp add: forward_def isatty_def prog_simps)
  obtain r1 h3 where m: "forward_files pty True K h2 = (r1, h3)" by fastforce
  from emitsD [OF emits_forward_files m] obtain s where s: "h3 = h2 @ s" "list_all no_termios s" by blast
  have "outcome_of r1 \<in> {O_ret, O_err, O_panic, O_hang}"
    using ends_inD [OF ends_forward_files m] by blast
  with f m run(2) s t show ?thesis
    by (cases r1) (auto simp: finallyP_run RawTty_drop_run)
qed

section \<open>The exit status\<close>

text \<open>The calls of the rounds that go on: interrupted or empty waits, and stops, which are
  answered by stopping the program itself and then continuing the child.\<close>

inductive wait_trace :: "kernel \<Rightarrow> pid \<Rightarrow> hist \<Rightarrow> hist \<Rightarrow> bool" for K child h where
  wt_start: "wait_trace K child h []"
| wt_interrupted: "wait_trace K child h s \<Longrightarrow> k_wait K (h @ s) child = Inl EINTR \<Longrightarrow>
     wait_trace K child h (s @ [(Waitpid child True, Inl EINTR)])"
| wt_nothing: "wait_trace K child h s \<Longrightarrow> k_wait K (h @ s) child = Inr None \<Longrightarrow>
     wait_trace K child h (s @ [(Waitpid child True, Inr 0)])"
| wt_stopped: "wait_trace K child h s \<Longrightarrow> k_wait K (h @ s) child = Inr (Some st) \<Longrightarrow> stopped st \<Longrightarrow>
     s1 = s @ [(Waitpid child True, Inr 0)] \<Longrightarrow>
     stop = (Kill (k_getpid K (h @ s1)) SIGSTOP, k_call K (h @ s1) (Kill (k_getpid K (h @ s1)) SIGSTOP)) \<Longrightarrow>
     resume = (Kill child SIGCONT, k_call K (h @ s1 @ [stop]) (Kill child SIGCONT)) \<Longrightarrow>
     wait_trace K child h (s1 @ [stop, resume])"

text \<open>How the last round ends, by the status that it got.\<close>

definition wait_end :: "kernel \<Rightarrow> wait_status \<Rightarrow> hist \<Rightarrow> (unit, pty_error) res \<times> hist" where
  "wait_end K st h = (case terminating_signal st of
      Some sig \<Rightarrow> (Exit (128 + sig), h @ (case k_named_signal K sig of
          Some signal \<Rightarrow> [(Kill (k_getpid K h) signal, k_call K h (Kill (k_getpid K h) signal))]
        | None \<Rightarrow> []))
    | None \<Rightarrow> (case exit_status st of
          Some c \<Rightarrow> (Exit c, h) | None \<Rightarrow> (Err (UnexpectedWaitEvent st), h)))"

lemma wait_step_run:
  "wait_step child u K h = (let w = k_wait K h child; h1 = h @ [(Waitpid child True, map_sum id (\<lambda>_. 0) w)] in
     case w of
       Inr (Some st) \<Rightarrow>
         (if stopped st then
            (let stop = (Kill (k_getpid K h1) SIGSTOP, k_call K h1 (Kill (k_getpid K h1) SIGSTOP)) in
             (Ret (Inl ()), h1 @ [stop, (Kill child SIGCONT, k_call K (h1 @ [stop]) (Kill child SIGCONT))]))
          else (map_res Inr id (fst (wait_end K st h1)), snd (wait_end K st h1)))
     | Inr None \<Rightarrow> (Ret (Inl ()), h1)
     | Inl e \<Rightarrow> if e = EINTR then (Ret (Inl ()), h1) else (Err (WaitPid e), h1))"
  by (auto simp: wait_step_def wait_end_def prog_simps Let_def split: sum.splits option.splits)

lemma wait_rounds:
  "rounds (wait_step child) K () h u h1 \<longleftrightarrow> (\<exists>s. h1 = h @ s \<and> wait_trace K child h s)"
proof
  assume "rounds (wait_step child) K () h u h1"
  then show "\<exists>s. h1 = h @ s \<and> wait_trace K child h s"
  proof (induction rule: rounds.induct)
    case rounds_start
    show ?case using wt_start by (intro exI [of _ "[]"]) simp
  next
    case (rounds_next u1 h1 u2 h2)
    then obtain s where s: "h1 = h @ s" "wait_trace K child h s" by blast
    from rounds_next.hyps(2) s(1) show ?case
      by (auto simp: wait_step_run Let_def wait_end_def split: sum.splits option.splits if_splits
          intro!: exI [where P = "\<lambda>t. _ = t \<and> _ t"] intro: wt_interrupted [OF s(2)] wt_nothing [OF s(2)] wt_stopped [OF s(2) _ _ refl refl refl, simplified])
  qed
next
  assume "\<exists>s. h1 = h @ s \<and> wait_trace K child h s"
  then obtain s where s: "h1 = h @ s" "wait_trace K child h s" by blast
  from s(2) have "rounds (wait_step child) K () h () (h @ s)"
  proof (induction rule: wait_trace.induct)
    case wt_start
    show ?case by (simp add: rounds_start)
  next
    case (wt_interrupted s)
    then show ?case by (auto intro: rounds_next simp: wait_step_run Let_def)
  next
    case (wt_nothing s)
    then show ?case by (auto intro: rounds_next simp: wait_step_run Let_def)
  next
    case (wt_stopped s st s1 stop resume)
    from wt_stopped.IH show ?case
      by (rule rounds_next) (use wt_stopped.hyps in \<open>simp add: wait_step_run Let_def\<close>)
  qed
  with s show "rounds (wait_step child) K () h u h1" by simp
qed

lemma wait_for_child_iff:
  assumes "r \<noteq> Hangs"
  shows "wait_for_child child K h = (r, h') \<longleftrightarrow> (\<exists>s. wait_trace K child h s \<and>
    ((\<exists>e. k_wait K (h @ s) child = Inl e \<and> e \<noteq> EINTR \<and> r = Err (WaitPid e) \<and>
        h' = h @ s @ [(Waitpid child True, Inl e)]) \<or>
     (\<exists>st. k_wait K (h @ s) child = Inr (Some st) \<and> \<not> stopped st \<and>
        (r, h') = wait_end K st (h @ s @ [(Waitpid child True, Inr 0)]))))"
    (is "_ \<longleftrightarrow> (\<exists>s. _ \<and> ?fin s)")
proof -
  have "wait_step child u K (h @ s) = (map_res Inr id r, h') \<longleftrightarrow> ?fin s" for s u
    using assms
    by (cases r) (auto simp: wait_step_run Let_def wait_end_def split: sum.splits option.splits if_splits)
  then show ?thesis
    unfolding wait_for_child_def loopP_iff [OF assms] wait_rounds by auto
qed

section \<open>The two ends of a pseudo terminal\<close>

lemma open_ptm_Ret:
  "open_ptm K h = (Ret m, h') \<longleftrightarrow> (\<exists>a b. k_call K h Openpt = Inr m \<and>
     k_call K (h @ [(Openpt, Inr m)]) (Grantpt m) = Inr a \<and>
     k_call K (h @ [(Openpt, Inr m), (Grantpt m, Inr a)]) (Unlockpt m) = Inr b \<and>
     h' = h @ [(Openpt, Inr m), (Grantpt m, Inr a), (Unlockpt m, Inr b)])"
  by (auto simp: open_ptm_def prog_inv)

lemma attach_pts_Ret:
  "attach_pts m K h = (Ret u, h') \<Longrightarrow> (\<exists>name s c t a b d. k_ptsname K h m = Inr name \<and> utf8_valid name \<and>
     h' = h @ [(Ptsname m, Inr 0), (Setsid, Inr s), (Open_rw name, Inr c), (Tiocsctty c, t),
       (Dup2 c stdin, Inr a), (Dup2 c stdout, Inr b), (Dup2 c stderr, Inr d)])"
  by (auto simp: attach_pts_def prog_inv split: if_splits)

lemma plain_isatty [outcome_intros]: "O_ret \<in> S \<Longrightarrow> ends_in S (isatty f)"
  unfolding isatty_def by (intro outcome_intros) auto

lemma ends_stdio_is_tty [outcome_intros]: "O_ret \<in> S \<Longrightarrow> ends_in S stdio_is_tty"
  unfolding stdio_is_tty_def by (intro outcome_intros) auto

lemma ends_open_ptm [outcome_intros]: "{O_ret, O_err} \<subseteq> S \<Longrightarrow> ends_in S open_ptm"
  unfolding open_ptm_def by (intro outcome_intros) auto

lemma ends_attach_pts [outcome_intros]: "{O_ret, O_err} \<subseteq> S \<Longrightarrow> ends_in S (attach_pts m)"
  unfolding attach_pts_def by (intro outcome_intros) auto

lemma ends_RawTty_new [outcome_intros]: "{O_ret, O_err} \<subseteq> S \<Longrightarrow> ends_in S (RawTty_new f)"
  unfolding RawTty_new_def by (intro outcome_intros) auto

lemma wait_end_outcome: "outcome_of (fst (wait_end K st h)) \<in> {O_exit, O_err}"
  by (simp add: wait_end_def split: option.splits)

lemma ends_wait_for_child [outcome_intros]:
  assumes "{O_exit, O_err, O_hang} \<subseteq> S"
  shows "ends_in S (wait_for_child child)"
proof (rule ends_inI)
  fix K h
  obtain r h' where w: "wait_for_child child K h = (r, h')" by fastforce
  show "outcome_of (fst (wait_for_child child K h)) \<in> S"
  proof (cases "r = Hangs")
    case False
    from wait_for_child_iff [THEN iffD1, OF False w] have "outcome_of r \<in> {O_exit, O_err}"
      using wait_end_outcome by (metis fst_conv insert_iff outcome_of.simps(2))
    with w assms show ?thesis by auto
  qed (use w assms in simp)
qed

lemma ends_forward [outcome_intros]:
  "{O_ret, O_err, O_panic, O_hang} \<subseteq> S \<Longrightarrow> ends_in S (forward pty)"
  unfolding forward_def by (intro outcome_intros) auto

lemma ends_forward_pty_and_wait [outcome_intros]:
  "{O_exit, O_err, O_panic, O_hang} \<subseteq> S \<Longrightarrow> ends_in S (forward_pty_and_wait pty child)"
  unfolding forward_pty_and_wait_def by (intro outcome_intros) auto

text \<open>A round that ends in the state in which it began is repeated forever.\<close>

lemma loopP_spins:
  assumes "\<And>h. \<exists>h'. body s K h = (Ret (Inl s), h')"
  shows "loopP body s K h = (Hangs, h)"
proof -
  have "loop_fuel n body K s h = None" for n
  proof (induction n arbitrary: h)
    case (Suc n)
    from assms obtain h' where "body s K h = (Ret (Inl s), h')" by blast
    with Suc show ?case by simp
  qed simp
  then have "loop_run body K s h = None" unfolding loop_run_None by blast
  then show ?thesis by (simp add: loopP_def)
qed

section \<open>Properties\<close>

text \<open>C1: The copying loop neither panics nor fails, and when it stops, what was written to
  each sink is a prefix of what was read from its source, short of at most one buffer: no
  byte is lost, repeated or reordered on the way, whatever the sizes of the partial reads
  and writes are.\<close>

theorem shovel_copies:
  assumes "honest_io K" "distinct_ends ds"
    and "(shovel (new_pairs ds) resize :: (unit, 'e) prog) K h = (r, h')"
  shows "(r = Hangs \<or> r = Ret ()) \<and>
    (r = Ret () \<longrightarrow> (\<forall>(src, dst) \<in> set ds. \<exists>s lost. h' = h @ s \<and>
       reads_from K h s src = writes_to s dst @ lost \<and> length lost \<le> BUF_SIZE))"
proof -
  have "\<exists>s lost. h' = h @ s \<and> reads_from K h s a = writes_to s b @ lost \<and> length lost \<le> BUF_SIZE"
    if "r = Ret ()" "(a, b) \<in> set ds" for a b
    using shovel_cases [OF assms] that copied_stateD by blast
  with shovel_cases [OF assms] show ?thesis by blast
qed

definition sample_copy :: kernel where
  "sample_copy = sample\<lparr>k_poll := (\<lambda>h. if length h < 3 then Inr [True, False] else Inl EBADF),
     k_fdread := (\<lambda>h f n. if n < 2 then Inl EBADF else Inr ''ab'')\<rparr>"

lemma sample_copy_honest: "honest_io sample_copy"
  by (auto simp: honest_io_def sample_copy_def sample_simps split: if_splits)

lemma sample_copy_run:
  "shovel (new_pairs [(5, 6), (6, 7)]) None sample_copy [] = (Ret (),
     [(Poll [(5, False), (6, False)] False, Inr 0), (Read 5 BUF_SIZE, Inr 0),
      (Write 6 ''ab'', Inr 2), (Poll [(5, False), (6, False)] False, Inl EBADF)])"
proof -
  have "loop_fuel 2 (shovel_step None) sample_copy (new_pairs [(5, 6), (6, 7)], None) [] = Some (Ret (),
     [(Poll [(5, False), (6, False)] False, Inr 0), (Read 5 BUF_SIZE, Inr 0),
      (Write 6 ''ab'', Inr 2), (Poll [(5, False), (6, False)] False, Inl EBADF)])"
    by (simp add: numeral_2_eq_2 shovel_step_def prog_simps new_pairs_def FilePair_new_def poll_fd_def
        sample_copy_def sample_simps update_winsize_def fp_service_def fp_read_def fp_write_def BUF_SIZE_def)
  from loopP_fuel [OF this] show ?thesis
    by (simp add: shovel_def shovel_init_def)
qed

theorem shovel_copies_witness:
  "\<exists>s lost. snd (shovel (new_pairs [(5, 6), (6, 7)]) None sample_copy [] :: (unit, unit) res \<times> hist) = s \<and>
     reads_from sample_copy [] s 5 = writes_to s 6 @ lost \<and> length lost \<le> BUF_SIZE"
  using shovel_copies [OF sample_copy_honest _ sample_copy_run, where 'e = unit]
  by (auto simp: distinct_ends_def sample_copy_run)

text \<open>C17: The invariant of the copying loop, at every moment at which a round can start: the
  pairs still have their files, their offsets are in order and within the buffer, what was
  read is what was written plus what is pending, and a pair that waits for input has
  nothing pending, so the loop never reads before it has written everything.\<close>

theorem shovel_loop_invariant:
  assumes "honest_io K" "distinct_ends ds"
    and "rounds (shovel_step resize) K (new_pairs ds, lw) h (ps, lw') h'"
  shows "map ends ps = ds \<and> (\<exists>s. h' = h @ s \<and> (\<forall>p \<in> set ps.
     write_offset p \<le> read_offset p \<and> read_offset p \<le> length (fp_buf p) \<and> length (fp_buf p) = BUF_SIZE \<and>
     reads_from K h s (fp_from p) = writes_to s (fp_to p) @ pending p \<and>
     (fp_state p = FP_Read \<longrightarrow> pending p = [])))"
proof -
  have "shovel_inv K h ds (ps, lw') h'"
    using shovel_rounds_inv [OF assms(3,1,2)] new_pairs_inv [of "[]" K h ds lw] by simp
  then show ?thesis
    by (auto simp: shovel_inv_def copied_state_def all_copied_def list_all_iff fp_bounds_def fp_ok_def
        copied_def pending_def)
qed

theorem shovel_loop_invariant_witness:
  "\<exists>s. [(Poll [(5, False), (6, False)] False, Inr 0), (Read 5 BUF_SIZE, Inr 0), (Write 6 ''ab'', Inr 2)] = [] @ s \<and>
     reads_from sample_copy [] s 5 = writes_to s 6"
proof -
  let ?ps = "new_pairs [(5, 6), (6, 7)]"
  obtain p1 where p1: "(shovel_step None (?ps, None) :: (_, unit) prog) sample_copy [] = (Ret (Inl (p1 # tl ?ps, None)),
      [(Poll [(5, False), (6, False)] False, Inr 0), (Read 5 BUF_SIZE, Inr 0), (Write 6 ''ab'', Inr 2)])"
    "fp_state p1 = FP_Read" "ends p1 = (5, 6)"
    by (simp add: shovel_step_def prog_simps new_pairs_def FilePair_new_def poll_fd_def ends_def
        sample_copy_def sample_simps update_winsize_def fp_service_def fp_read_def fp_write_def BUF_SIZE_def)
  have "rounds (shovel_step None :: _ \<Rightarrow> (_, unit) prog) sample_copy (?ps, None) [] (p1 # tl ?ps, None)
      [(Poll [(5, False), (6, False)] False, Inr 0), (Read 5 BUF_SIZE, Inr 0), (Write 6 ''ab'', Inr 2)]"
    by (rule rounds_next, rule rounds_start, rule p1(1))
  from shovel_loop_invariant [OF sample_copy_honest _ this] p1(2,3)
  show ?thesis by (auto simp: distinct_ends_def ends_def)
qed

text \<open>C19: The terminal is left as it was found: once standard input has been put into raw mode,
  every way out of \<open>forward\<close> (return, error and panic) ends with setting the attributes
  that were read before, and nothing sets attributes in between.\<close>

theorem forward_restores_terminal:
  assumes "forward pty K h = (r, h')" "r \<noteq> Hangs"
    and "k_call K h (Isatty stdin) = Inr i"
    and "RawTty_new stdin K (h @ [(Isatty stdin, Inr i)]) = (Ret t, h2)"
  shows "k_termios K (h @ [(Isatty stdin, Inr i)]) stdin = Inr (rt_attr t) \<and>
    (\<exists>s q. h' = h2 @ s @ [(Tcsetattr stdin False (rt_attr t), q)] \<and> list_all no_termios s)"
  using forward_tty [OF assms(1,2,3) refl assms(4)] assms(4) by (auto simp: RawTty_new_Ret)

definition sample_tty :: kernel where
  "sample_tty = sample\<lparr>k_termios := (\<lambda>h f. Inr \<lparr>input_modes = 0x500, output_modes = 5, local_modes = 0x8A3B,
      control_modes = 0xBF, vmin = 1, vtime = 0\<rparr>),
     k_winsize := (\<lambda>h f. Inr \<lparr>ws_row = 24, ws_col = 80, ws_xpixel = 0, ws_ypixel = 0\<rparr>)\<rparr>"

lemma sample_tty_run:
  obtains h' where "forward 3 sample_tty [] = (Ret (), h')"
proof -
  have "loop_fuel 1 (shovel_step (Some 3)) sample_tty (ps, Some lw) h =
      Some (Ret () :: (unit, pty_error) res, h @ [(Poll (map poll_fd ps) True, Inl EBADF)])" for ps lw h
    by (simp add: shovel_step_def prog_simps sample_tty_def sample_simps)
  from loopP_fuel [OF this] that show thesis
    by (simp add: forward_def isatty_def RawTty_new_def forward_files_def dup_fd_def shovel_def shovel_init_def
        get_winsize_def set_winsize_def RawTty_drop_def prog_simps sample_tty_def [THEN arg_cong, of k_call]
        sample_tty_def [THEN arg_cong, of k_termios] sample_tty_def [THEN arg_cong, of k_winsize] sample_simps)
qed

theorem forward_restores_terminal_witness:
  "\<exists>h' s q. forward 3 sample_tty [] = (Ret (), h') \<and>
     h' = [(Isatty stdin, Inr 0), (Tcgetattr stdin, Inr 0),
           (Tcsetattr stdin True \<lparr>input_modes = 0, output_modes = 4, local_modes = 0xA30,
              control_modes = 0xBF, vmin = 1, vtime = 0\<rparr>, Inr 0)] @ s @
          [(Tcsetattr stdin False \<lparr>input_modes = 0x500, output_modes = 5, local_modes = 0x8A3B,
              control_modes = 0xBF, vmin = 1, vtime = 0\<rparr>, q)]"
proof -
  obtain h' where run: "forward 3 sample_tty [] = (Ret (), h')" by (rule sample_tty_run)
  let ?t = "\<lparr>rt_fd = stdin, rt_attr = \<lparr>input_modes = 0x500, output_modes = 5, local_modes = 0x8A3B,
      control_modes = 0xBF, vmin = 1, vtime = 0\<rparr>\<rparr>"
  have "RawTty_new stdin sample_tty ([] @ [(Isatty stdin, Inr 0)]) = (Ret ?t,
     [(Isatty stdin, Inr 0), (Tcgetattr stdin, Inr 0),
           (Tcsetattr stdin True \<lparr>input_modes = 0, output_modes = 4, local_modes = 0xA30,
              control_modes = 0xBF, vmin = 1, vtime = 0\<rparr>, Inr 0)])"
    by (simp add: RawTty_new_def prog_simps sample_tty_def sample_simps make_raw_def RAW_INPUT_def RAW_LOCAL_def)
  from forward_restores_terminal [OF run _ _ this]
  have "\<exists>s q. h' = [(Isatty stdin, Inr 0), (Tcgetattr stdin, Inr 0),
           (Tcsetattr stdin True \<lparr>input_modes = 0, output_modes = 4, local_modes = 0xA30,
              control_modes = 0xBF, vmin = 1, vtime = 0\<rparr>, Inr 0)] @ s @
          [(Tcsetattr stdin False \<lparr>input_modes = 0x500, output_modes = 5, local_modes = 0x8A3B,
              control_modes = 0xBF, vmin = 1, vtime = 0\<rparr>, q)]"
    by (auto simp: sample_tty_def sample_simps)
  with run show ?thesis by blast
qed

text \<open>C13: The exit status: the program exits with \<open>n\<close> exactly when, after any number of
  interrupted waits and of stops (each answered by stopping itself, then continuing the
  child), the wait reports a child that exited with \<open>n\<close> or was killed by signal \<open>n - 128\<close>;
  in the second case it sends itself that signal first. It never returns to its caller
  otherwise than with an error.\<close>

theorem wait_for_child_exit:
  "wait_for_child child K h \<noteq> (Ret u, h1) \<and>
   (wait_for_child child K h = (Exit n, h') \<longleftrightarrow> (\<exists>s st. wait_trace K child h s \<and>
      k_wait K (h @ s) child = Inr (Some st) \<and> \<not> stopped st \<and>
      (case terminating_signal st of
         Some sig \<Rightarrow> n = 128 + sig \<and> (case k_named_signal K sig of
             None \<Rightarrow> h' = h @ s @ [(Waitpid child True, Inr 0)]
           | Some signal \<Rightarrow> 
               h' = (let h2 = h @ s @ [(Waitpid child True, Inr 0)] in
                 h2 @ [(Kill (k_getpid K h2) signal, k_call K h2 (Kill (k_getpid K h2) signal))]))
       | None \<Rightarrow> exit_status st = Some n \<and> h' = h @ s @ [(Waitpid child True, Inr 0)])))"
proof -
  have "r \<noteq> Hangs \<Longrightarrow> wait_for_child child K h = (r, h2) \<Longrightarrow> outcome_of r \<in> {O_exit, O_err, O_hang}" for r h2
    using ends_inD [OF ends_wait_for_child [of "{O_exit, O_err, O_hang}"]] by blast
  then have "wait_for_child child K h \<noteq> (Ret u, h1)" by fastforce
  moreover have last: "(Exit n, h') = wait_end K st h2 \<longleftrightarrow> (case terminating_signal st of
         Some sig \<Rightarrow> n = 128 + sig \<and> (case k_named_signal K sig of
             None \<Rightarrow> h' = h2
           | Some signal \<Rightarrow> h' = h2 @ [(Kill (k_getpid K h2) signal, k_call K h2 (Kill (k_getpid K h2) signal))])
       | None \<Rightarrow> exit_status st = Some n \<and> h' = h2)" for st h2
    by (auto simp: wait_end_def split: option.splits)
  ultimately show ?thesis
    unfolding Let_def by (simp add: wait_for_child_iff last [of _ "h @ _ @ [(Waitpid child True, Inr 0)]"])
qed

definition sample_killed :: kernel where
  "sample_killed = sample\<lparr>k_wait := (\<lambda>h p. Inr (Some (if h = []
      then \<lparr>stopped = True, terminating_signal = None, exit_status = None\<rparr>
      else \<lparr>stopped = False, terminating_signal = Some 9, exit_status = None\<rparr>)))\<rparr>"

definition sample_killed_hist :: hist where
  "sample_killed_hist = [(Waitpid 7 True, Inr 0), (Kill 100 SIGSTOP, Inr 0), (Kill 7 SIGCONT, Inr 0),
     (Waitpid 7 True, Inr 0), (Kill 100 SIGKILL, Inr 0)]"

lemma wait_for_child_example: "wait_for_child 7 sample_killed [] = (Exit 137, sample_killed_hist)"
proof -
  have "loop_fuel 2 (wait_step 7) sample_killed () [] = Some (Exit 137, sample_killed_hist)"
    by (simp add: numeral_2_eq_2 wait_step_run wait_end_def Let_def sample_killed_def sample_killed_hist_def
        sample_simps)
  then show ?thesis unfolding wait_for_child_def by (rule loopP_fuel)
qed



end
