(* ===== verification/Errors.thy ===== *)
theory Errors
  imports Container_Setup Cmd Ipc Pty
begin

text \<open>
  \<open>errors.rs\<close> and the messages of the error types: for every error the list of the messages
  of its source chain, outermost first, as derived from the \<open>#[error]\<close>, \<open>#[source]\<close> and
  \<open>#[from]\<close> attributes. A transparent variant has the chain of what it wraps. The error types
  of the components that come later have their chains in their own theories.
\<close>

section \<open>\<open>format_chain\<close>\<close>

text \<open>The argument is the error's message followed by those of \<open>source()\<close>, \<open>source().source()\<close>, ...\<close>

definition format_chain :: "string list \<Rightarrow> string" where
  "format_chain chain = foldl (\<lambda>msg cause. msg @ '': '' @ cause) (hd chain) (tl chain)"

lemma foldl_join: "foldl (\<lambda>msg cause. msg @ sep @ cause) m cs = join_with sep (m # cs)"
proof (induction cs arbitrary: m)
  case (Cons c cs)
  then have "foldl (\<lambda>msg cause. msg @ sep @ cause) m (c # cs) = join_with sep ((m @ sep @ c) # cs)" by simp
  also have "\<dots> = join_with sep (m # c # cs)" by (cases cs) simp_all
  finally show ?case .
qed simp

text \<open>What every error type of the program promises: a chain with at least its own message.
  Then the report begins with that message and contains those of all causes, in order.\<close>

locale error_type =
  fixes chain :: "kernel \<Rightarrow> 'e \<Rightarrow> string list"
  assumes chain_nonempty: "chain K e \<noteq> []"
begin

lemma report_join: "format_chain (chain K e) = join_with '': '' (chain K e)"
  using foldl_join [of "'': ''" "hd (chain K e)" "tl (chain K e)"] chain_nonempty [of K e]
  by (simp add: format_chain_def)

lemma report_head: "\<exists>rest. format_chain (chain K e) = hd (chain K e) @ rest"
proof -
  obtain m cs where "chain K e = m # cs" using chain_nonempty [of K e] by (cases "chain K e") auto
  then show ?thesis unfolding report_join by (cases cs) auto
qed

end

section \<open>The error types\<close>

definition quoted :: "string \<Rightarrow> string" where
  "quoted s = CHR 0x27 # s @ [CHR 0x27]"

text \<open>A \<open>Path\<close> is displayed lossily.\<close>

definition display_path :: "string \<Rightarrow> string" where
  "display_path p = from_utf8_lossy p"

definition int_error_text :: "int_error \<Rightarrow> string" where
  "int_error_text e = (case e of
      IntEmpty \<Rightarrow> ''cannot parse integer from empty string''
    | InvalidDigit \<Rightarrow> ''invalid digit found in string''
    | PosOverflow \<Rightarrow> ''number too large to fit in target type'')"

definition lsm_chain :: "kernel \<Rightarrow> lsm_error \<Rightarrow> string list" where
  "lsm_chain K e = (case e of
      ReadEnabled path s \<Rightarrow> [''failed to read '' @ path, k_strerror K s]
    | OpenProfile path s \<Rightarrow> [''failed to open AppArmor profile file '' @ display_path path, k_strerror K s]
    | ReadProfile path s \<Rightarrow> [''failed to read AppArmor profile from '' @ display_path path, k_strerror K s]
    | WriteProfile attr s \<Rightarrow> [''failed to write '' @ quoted attr @ '' to AppArmor profile'', k_strerror K s])"

definition procfs_chain :: "kernel \<Rightarrow> procfs_error \<Rightarrow> string list" where
  "procfs_chain K e = (case e of
      Procfs_Open path s \<Rightarrow> [''failed to open '' @ display_path path, k_strerror K s]
    | Procfs_Read path s \<Rightarrow> [''failed to read '' @ display_path path, k_strerror K s]
    | Procfs_Parse what path v s \<Rightarrow>
        [''failed to parse '' @ what @ '' in '' @ display_path path @ '': '' @ quoted v, int_error_text s]
    | IdOverflow path istart offset \<Rightarrow>
        [''integer overflow computing inner ID in '' @ display_path path @ '': '' @ show_nat (unat istart)
          @ '' + '' @ show_nat (unat offset) @ '' would overflow'']
    | MalformedStatusLine path columns line \<Rightarrow>
        [''malformed line in '' @ display_path path @ '' (expected at least 2 tab-separated columns, found ''
          @ show_nat columns @ ''): '' @ quoted line]
    | MissingCapEff path \<Rightarrow> [''could not find effective capabilities (CapEff) in '' @ display_path path]
    | Procfs_Metadata path s \<Rightarrow> [''failed to get metadata for '' @ display_path path, k_strerror K s]
    | Procfs_Lsm s \<Rightarrow> ''failed to read LSM profile'' # lsm_chain K s)"

definition cgroup_chain :: "kernel \<Rightarrow> cgroup_error \<Rightarrow> string list" where
  "cgroup_chain K e = (case e of
      Cgroup_Open path s \<Rightarrow> [''failed to open '' @ display_path path, k_strerror K s]
    | Cgroup_Read path s \<Rightarrow> [''failed to read line from '' @ display_path path, k_strerror K s]
    | Cgroup_WritePid path s \<Rightarrow> [''failed to write PID to cgroup '' @ display_path path, k_strerror K s])"

definition namespace_chain :: "kernel \<Rightarrow> namespace_error \<Rightarrow> string list" where
  "namespace_chain K e = (case e of
      ListNamespaces s \<Rightarrow> [''failed to read directory /proc/self/ns'', k_strerror K s]
    | OpenNamespaceFile path s \<Rightarrow> [''failed to open namespace file '' @ quoted (display_path path), k_strerror K s]
    | SetNamespace nm s \<Rightarrow> [''failed to set namespace '' @ quoted nm, k_strerror K s])"

definition setup_chain :: "kernel \<Rightarrow> setup_error \<Rightarrow> string list" where
  "setup_chain K e = (case e of
      Setup_MountNamespaceUnsupported \<Rightarrow> [''the system has no support for mount namespaces'']
    | Setup_Namespace s \<Rightarrow> ''failed to enter container namespace'' # namespace_chain K s
    | Setup_Cgroup s \<Rightarrow> ''failed to change cgroup'' # cgroup_chain K s
    | SetGid s \<Rightarrow> [''could not set group id'', k_strerror K s]
    | SetUid s \<Rightarrow> [''could not set user id'', k_strerror K s])"

definition cmd_chain :: "kernel \<Rightarrow> cmd_error \<Rightarrow> string list" where
  "cmd_chain K e = (case e of
      OpenEnviron path s \<Rightarrow> [''failed to open environment file '' @ display_path path, k_strerror K s]
    | ReadContainerRoot path s \<Rightarrow> [''failed to read container root from '' @ path, k_strerror K s]
    | Cmd_Exec comm s \<Rightarrow> [''failed to execute command: '' @ comm, k_strerror K s])"

definition ipc_chain :: "kernel \<Rightarrow> ipc_error \<Rightarrow> string list" where
  "ipc_chain K e = (case e of
      Ipc_Send s \<Rightarrow> [''failed to send message via Unix socket'', k_strerror K s]
    | Ipc_Receive s \<Rightarrow> [''failed to receive message from Unix socket'', k_strerror K s]
    | Ipc_SocketPair s \<Rightarrow> [''failed to create socketpair'', k_strerror K s])"

definition pty_chain :: "kernel \<Rightarrow> pty_error \<Rightarrow> string list" where
  "pty_chain K e = (case e of
      GetTermios s \<Rightarrow> [''failed to get termios attributes'', k_strerror K s]
    | SetTermios s \<Rightarrow> [''failed to set termios attributes'', k_strerror K s]
    | Pty_Dup what s \<Rightarrow> [''failed to duplicate '' @ what, k_strerror K s]
    | OpenPtyMaster s \<Rightarrow> [''failed to open pty with posix_openpt()'', k_strerror K s]
    | Pty_Grantpt s \<Rightarrow> [''failed to grant pty access with grantpt()'', k_strerror K s]
    | Pty_Unlockpt s \<Rightarrow> [''failed to unlock pty with unlockpt()'', k_strerror K s]
    | Pty_Ptsname s \<Rightarrow> [''failed to get PTY slave name from master'', k_strerror K s]
    | PtsnameNotUtf8 \<Rightarrow> [''PTY slave name is not valid UTF-8'']
    | Pty_Setsid s \<Rightarrow> [''failed to create new session for PTY'', k_strerror K s]
    | OpenPtySlave path s \<Rightarrow> [''failed to open PTY slave at '' @ path, k_strerror K s]
    | Pty_Dup2 what s \<Rightarrow> [''failed to redirect '' @ what @ '' to PTY slave'', k_strerror K s]
    | WaitPid s \<Rightarrow> [''waitpid failed'', k_strerror K s]
    | UnexpectedWaitEvent st \<Rightarrow> [''unexpected wait event: '' @ k_debug_status K st])"

interpretation lsm_err: error_type lsm_chain
  by unfold_locales (simp add: lsm_chain_def split: lsm_error.split)

interpretation procfs_err: error_type procfs_chain
  by unfold_locales (simp add: procfs_chain_def split: procfs_error.split)

interpretation cgroup_err: error_type cgroup_chain
  by unfold_locales (simp add: cgroup_chain_def split: cgroup_error.split)

interpretation namespace_err: error_type namespace_chain
  by unfold_locales (simp add: namespace_chain_def split: namespace_error.split)

interpretation setup_err: error_type setup_chain
  by unfold_locales (simp add: setup_chain_def split: setup_error.split)

interpretation cmd_err: error_type cmd_chain
  by unfold_locales (simp add: cmd_chain_def split: cmd_error.split)

interpretation ipc_err: error_type ipc_chain
  by unfold_locales (simp add: ipc_chain_def split: ipc_error.split)

interpretation pty_err: error_type pty_chain
  by unfold_locales (simp add: pty_chain_def split: pty_error.split)

end
