(* ===== verification/Syscalls.thy ===== *)
theory Syscalls
  imports Prog_Logic
begin

text \<open>
  \<open>syscalls/\<close>: \<open>fork\<close> and \<open>_exit\<close>, the probe for the mount API with its cache, and
  \<open>mount_setattr\<close>. A program models one process: which of the two it is after a fork is
  the answer of the call, 0 in the child.
\<close>

datatype fork_result = Fork_Child | ParentOf pid

definition fork :: "(fork_result, io_error) prog" where
  "fork = bindP (tryP id (call Fork)) (\<lambda>n. retP (if n = 0 then Fork_Child else ParentOf (int n)))"

text \<open>\<open>_exit\<close> runs no destructors, like \<open>exitP\<close>.\<close>

definition sys_exit :: "int \<Rightarrow> ('a, 'e) prog" where
  "sys_exit status_code = exitP status_code"

definition probe_mount_api :: "(bool, 'e) prog" where
  "probe_mount_api = bindP (call (Fsopen ''__cntr_probe__'')) (\<lambda>r. case r of
      Inr _ \<Rightarrow> retP True
    | Inl e \<Rightarrow> if e = ENOSYS then retP False else retP True)"

text \<open>The state is the \<open>OnceLock\<close>: the probe runs at most once.\<close>

definition has_mount_api :: "bool option \<Rightarrow> (bool \<times> bool option, 'e) prog" where
  "has_mount_api cache = (case cache of
      Some b \<Rightarrow> retP (b, cache)
    | None \<Rightarrow> bindP probe_mount_api (\<lambda>b. retP (b, Some b)))"

definition make_mount_idmapped :: "fd \<Rightarrow> fd \<Rightarrow> (io_error + unit, 'e) prog" where
  "make_mount_idmapped mount_fd userns_fd =
     bindP (call (Mount_setattr_idmap mount_fd userns_fd)) (\<lambda>res. retP (case res of
         Inl e \<Rightarrow> Inl e | Inr _ \<Rightarrow> Inr ()))"

lemma fork_run [prog_simps]:
  "fork K h = (case k_call K h Fork of
      Inl e \<Rightarrow> (Err e, h @ [(Fork, Inl e)])
    | Inr n \<Rightarrow> (Ret (if n = 0 then Fork_Child else ParentOf (int n)), h @ [(Fork, Inr n)]))"
  by (simp add: fork_def prog_simps split: sum.splits)

lemma fork_Ret:
  "fork K h = (Ret f, h') \<longleftrightarrow> (\<exists>n. k_call K h Fork = Inr n \<and> h' = h @ [(Fork, Inr n)] \<and>
     f = (if n = 0 then Fork_Child else ParentOf (int n)))"
  unfolding fork_run by (cases "k_call K h Fork") auto

lemma probe_run [prog_simps]:
  "probe_mount_api K h = (Ret (k_call K h (Fsopen ''__cntr_probe__'') \<noteq> Inl ENOSYS),
     h @ [(Fsopen ''__cntr_probe__'', k_call K h (Fsopen ''__cntr_probe__''))])"
  by (auto simp: probe_mount_api_def prog_simps split: sum.splits)

text \<open>Asking again gives the same answer and makes no call.\<close>

lemma has_mount_api_once:
  "has_mount_api c K h = (Ret (b, c'), h') \<Longrightarrow> has_mount_api c' K2 h2 = (Ret (b, c'), h2)"
  by (auto simp: has_mount_api_def prog_simps prog_inv split: option.splits)

lemma ends_fork [outcome_intros]: "{O_ret, O_err} \<subseteq> S \<Longrightarrow> ends_in S fork"
  unfolding fork_def by (intro outcome_intros) auto

lemma ends_has_mount_api [outcome_intros]: "O_ret \<in> S \<Longrightarrow> ends_in S (has_mount_api c)"
  unfolding has_mount_api_def probe_mount_api_def by (intro outcome_intros) auto

lemma ends_make_mount_idmapped [outcome_intros]: "O_ret \<in> S \<Longrightarrow> ends_in S (make_mount_idmapped m u)"
  unfolding make_mount_idmapped_def by (intro outcome_intros) auto

lemma ends_sys_exit [outcome_intros]: "O_exit \<in> S \<Longrightarrow> ends_in S (sys_exit n)"
  unfolding sys_exit_def by (intro outcome_intros)

end
