(* ===== verification/Idmap_Helper.thy ===== *)
theory Idmap_Helper
  imports Errors Syscalls Sample
begin

text \<open>
  \<open>attach/idmap_helper.rs\<close>: a helper process that holds a user namespace whose id maps have
  one line each; the parent keeps the file of that namespace.
\<close>

section \<open>Model\<close>

datatype idmap_error =
    CreatePipe io_error
  | Idmap_Fork io_error
  | ReadFromHelper io_error
  | HelperNotReady nat
  | OpenUserns string io_error
  | UnshareUserns io_error
  | WriteIdMap string io_error

definition idmap_chain :: "kernel \<Rightarrow> idmap_error \<Rightarrow> string list" where
  "idmap_chain K e = (case e of
      CreatePipe s \<Rightarrow> [''failed to create sync pipe'', k_strerror K s]
    | Idmap_Fork s \<Rightarrow> [''failed to fork idmap helper'', k_strerror K s]
    | ReadFromHelper s \<Rightarrow> [''failed to read from helper'', k_strerror K s]
    | HelperNotReady n \<Rightarrow> [''helper failed during setup (read '' @ show_nat n @ '' bytes, expected 1)'']
    | OpenUserns path s \<Rightarrow> [''failed to open '' @ path, k_strerror K s]
    | UnshareUserns s \<Rightarrow> [''failed to unshare user namespace'', k_strerror K s]
    | WriteIdMap path s \<Rightarrow> [''failed to write '' @ path, k_strerror K s])"

interpretation idmap_err: error_type idmap_chain
  by unfold_locales (simp add: idmap_chain_def split: idmap_error.split)

record idmap_helper =
  ih_pid :: pid
  ih_userns_fd :: fd

definition id_map_line :: "u32 \<Rightarrow> u32 \<Rightarrow> string" where
  "id_map_line inner_id outer_id =
     show_nat (unat inner_id) @ '' '' @ show_nat (unat outer_id) @ '' 1'' @ [NL]"

definition setup_userns :: "u32 \<Rightarrow> u32 \<Rightarrow> u32 \<Rightarrow> u32 \<Rightarrow> (unit, idmap_error) prog" where
  "setup_userns inner_uid outer_uid inner_gid outer_gid =
     bindP (tryP UnshareUserns (call Unshare_newuser)) (\<lambda>_.
     bindP (call (Fs_write ''/proc/self/setgroups'' ''deny'')) (\<lambda>_.
     let uid_map = id_map_line inner_uid outer_uid in
     bindP (tryP (WriteIdMap ''/proc/self/uid_map'') (call (Fs_write ''/proc/self/uid_map'' uid_map))) (\<lambda>_.
     let gid_map = id_map_line inner_gid outer_gid in
     bindP (tryP (WriteIdMap ''/proc/self/gid_map'') (call (Fs_write ''/proc/self/gid_map'' gid_map))) (\<lambda>_.
     retP ()))))"

definition sleep_forever :: "('a, 'e) prog" where
  "sleep_forever = loopP (\<lambda>_. bindP (call (Sleep 3600)) (\<lambda>_. retP (Inl ()))) ()"

definition eprint :: "string \<Rightarrow> (unit, 'e) prog" where
  "eprint msg = bindP (call (Eprint msg)) (\<lambda>_. retP ())"

text \<open>The two branches of the fork.\<close>

definition helper_parent :: "fd \<Rightarrow> fd \<Rightarrow> pid \<Rightarrow> (idmap_helper, idmap_error) prog" where
  "helper_parent read_fd write_fd child =
     bindP (call (Close write_fd)) (\<lambda>_.
     bindP (tryP ReadFromHelper (query (Read read_fd 1) (\<lambda>K h. k_fdread K h read_fd 1))) (\<lambda>buf.
     let bytes_read = length buf in
     if bytes_read \<noteq> 1 then throwP (HelperNotReady bytes_read) else
     bindP (call (Close read_fd)) (\<lambda>_.
     let userns_path = ''/proc/'' @ show_int child @ ''/ns/user'' in
     bindP (tryP (OpenUserns userns_path) (call (Open_read userns_path))) (\<lambda>userns_fd.
     retP \<lparr>ih_pid = child, ih_userns_fd = userns_fd\<rparr>))))"

definition helper_child :: "fd \<Rightarrow> fd \<Rightarrow> u32 \<Rightarrow> u32 \<Rightarrow> u32 \<Rightarrow> u32 \<Rightarrow> ('a, 'e) prog" where
  "helper_child read_fd write_fd inner_uid outer_uid inner_gid outer_gid =
     bindP (call (Close read_fd)) (\<lambda>_.
     bindP (attemptP (setup_userns inner_uid outer_uid inner_gid outer_gid)) (\<lambda>r. case r of
         Inl e \<Rightarrow>
           bindP (askP (\<lambda>K h. format_chain (idmap_chain K e))) (\<lambda>msg.
           bindP (eprint (''idmap helper failed: '' @ msg)) (\<lambda>_. sys_exit 1))
       | Inr _ \<Rightarrow>
           bindP (call (Write_all write_fd ''R'')) (\<lambda>w. case w of
               Inl e \<Rightarrow>
                 bindP (askP (\<lambda>K h. k_debug_error K e)) (\<lambda>msg.
                 bindP (eprint (''idmap helper failed to signal parent: '' @ msg)) (\<lambda>_. sys_exit 1))
             | Inr _ \<Rightarrow> sleep_forever)))"

definition IdmapHelper_new :: "u32 \<Rightarrow> u32 \<Rightarrow> u32 \<Rightarrow> u32 \<Rightarrow> (idmap_helper, idmap_error) prog" where
  "IdmapHelper_new inner_uid outer_uid inner_gid outer_gid =
     bindP (tryP CreatePipe (query Pipe (\<lambda>K h. k_pair K h Pipe))) (\<lambda>(read_fd, write_fd).
     bindP (map_errP Idmap_Fork fork) (\<lambda>f. case f of
         ParentOf child \<Rightarrow> helper_parent read_fd write_fd child
       | Fork_Child \<Rightarrow> helper_child read_fd write_fd inner_uid outer_uid inner_gid outer_gid))"

definition IdmapHelper_drop :: "idmap_helper \<Rightarrow> (unit, 'e) prog" where
  "IdmapHelper_drop self =
     bindP (call (Kill (ih_pid self) SIGKILL)) (\<lambda>_.
     bindP (query (Waitpid (ih_pid self) False) (\<lambda>K h. k_wait K h (ih_pid self))) (\<lambda>_. retP ()))"

section \<open>Rules\<close>

lemma sleep_forever_run: "sleep_forever K h = (Hangs, h)"
  unfolding sleep_forever_def by (rule loopP_spins) (simp add: prog_simps)

lemma ends_sleep_forever [outcome_intros]: "O_hang \<in> S \<Longrightarrow> ends_in S sleep_forever"
  by (simp add: ends_in_def sleep_forever_run)

lemma ends_eprint [outcome_intros]: "O_ret \<in> S \<Longrightarrow> ends_in S (eprint m)"
  unfolding eprint_def by (intro outcome_intros) auto

lemma eprint_run [prog_simps]: "eprint m K h = (Ret (), h @ [(Eprint m, k_call K h (Eprint m))])"
  by (simp add: eprint_def prog_simps)

lemma ends_setup_userns: "{O_ret, O_err} \<subseteq> S \<Longrightarrow> ends_in S (setup_userns a b c d)"
  unfolding setup_userns_def by (intro outcome_intros) auto

lemma ends_helper_child: "{O_exit, O_hang} \<subseteq> S \<Longrightarrow> ends_in S (helper_child r w a b c d)"
  unfolding helper_child_def by (intro outcome_intros ends_setup_userns) auto

lemma ends_helper_parent: "{O_ret, O_err} \<subseteq> S \<Longrightarrow> ends_in S (helper_parent r w c)"
  unfolding helper_parent_def by (intro outcome_intros) auto

lemma ends_IdmapHelper_new [outcome_intros]:
  "{O_ret, O_err, O_exit, O_hang} \<subseteq> S \<Longrightarrow> ends_in S (IdmapHelper_new a b c d)"
  unfolding IdmapHelper_new_def
  by (intro outcome_intros) (auto split: fork_result.split intro: ends_helper_child ends_helper_parent)

lemma setup_userns_Ret:
  "setup_userns iu ou ig og K h = (Ret u, h') \<Longrightarrow> \<exists>a b c d. h' = h @
     [(Unshare_newuser, Inr a), (Fs_write ''/proc/self/setgroups'' ''deny'', b),
      (Fs_write ''/proc/self/uid_map'' (id_map_line iu ou), Inr c),
      (Fs_write ''/proc/self/gid_map'' (id_map_line ig og), Inr d)]"
  by (auto simp: setup_userns_def prog_inv Let_def)

text \<open>Only the parent gets a helper back, and only after it has read one byte from the child.\<close>

lemma IdmapHelper_new_Ret:
  assumes "IdmapHelper_new iu ou ig og K h = (Ret ih, h')"
  shows "\<exists>r w n c1 c2 m b. k_pair K h Pipe = Inr (r, w) \<and> n \<noteq> 0 \<and> ih = \<lparr>ih_pid = int n, ih_userns_fd = m\<rparr> \<and>
    k_fdread K (h @ [(Pipe, Inr 0), (Fork, Inr n), (Close w, c1)]) r 1 = Inr [b] \<and>
    h' = h @ [(Pipe, Inr 0), (Fork, Inr n), (Close w, c1), (Read r 1, Inr 0), (Close r, c2),
      (Open_read (''/proc/'' @ show_int (int n) @ ''/ns/user''), Inr m)]"
proof -
  from assms obtain r w h1 f h2 where
    p: "k_pair K h Pipe = Inr (r, w)" "h1 = h @ [(Pipe, Inr 0)]" "fork K h1 = (Ret f, h2)"
    and b: "(case f of ParentOf child \<Rightarrow> helper_parent r w child
       | Fork_Child \<Rightarrow> helper_child r w iu ou ig og) K h2 = (Ret ih, h')"
    unfolding IdmapHelper_new_def by (auto simp: prog_inv)
  show ?thesis
  proof (cases f)
    case Fork_Child
    with b have "(helper_child r w iu ou ig og :: (idmap_helper, idmap_error) prog) K h2 = (Ret ih, h')" by simp
    from ends_inD [OF ends_helper_child [of "{O_exit, O_hang}"] this] show ?thesis by simp
  next
    case (ParentOf child)
    with b p show ?thesis
      by (auto simp: helper_parent_def prog_inv fork_Ret Let_def length_Suc_conv split: if_splits)
  qed
qed

section \<open>The map that the helper installs\<close>

lemma id_map_line_text:
  "id_map_line i o' = map_text 0 [\<lparr>inner_start = i, outer_start = o', range_length = 1\<rparr>]"
proof -
  have "show_nat 1 = ''1''" by code_simp
  then show ?thesis by (simp add: id_map_line_def map_text_def range_line_def padded_def)
qed

text \<open>Events before the signal to the parent.\<close>

definition is_signal :: "fd \<Rightarrow> event \<Rightarrow> bool" where
  "is_signal w e \<longleftrightarrow> fst e = Write_all w ''R''"

lemma emits_setup_userns: "emits (\<lambda>e. \<not> is_signal w e) (setup_userns a b c d)"
  unfolding setup_userns_def by (intro emits_intros) (simp_all add: is_signal_def)

lemma helper_child_signal:
  assumes run: "(helper_child rd wr iu ou ig og :: (unit, 'e) prog) K h = (res, h @ s)"
    and sig: "list_ex (is_signal wr) s"
  shows "\<exists>c a g1 m1 m2. take 5 s =
        [(Close rd, c), (Unshare_newuser, Inr a), (Fs_write ''/proc/self/setgroups'' ''deny'', g1),
         (Fs_write ''/proc/self/uid_map'' (id_map_line iu ou), Inr m1),
         (Fs_write ''/proc/self/gid_map'' (id_map_line ig og), Inr m2)]"
proof -
  let ?c = "(Close rd, k_call K h (Close rd))"
  let ?h1 = "h @ [?c]"
  obtain r h2 where u: "setup_userns iu ou ig og K ?h1 = (r, h2)" by fastforce
  from emitsD [OF emits_setup_userns u, of wr] obtain t where
    t: "h2 = ?h1 @ t" "list_all (\<lambda>e. \<not> is_signal wr e) t" by blast
  have "outcome_of r \<in> {O_ret, O_err}" using ends_inD [OF ends_setup_userns u] by blast
  then show ?thesis
  proof (cases r)
    case (Err e)
    with run u t have "\<exists>m q. s = ?c # t @ [(Eprint m, q)]"
      by (auto simp: helper_child_def prog_simps sys_exit_def)
    with sig t show ?thesis by (auto simp: is_signal_def list_all_iff list_ex_iff)
  next
    case (Ret x)
    from setup_userns_Ret [OF u [unfolded Ret]] obtain a g m1 m2 where
      "t = [(Unshare_newuser, Inr a), (Fs_write ''/proc/self/setgroups'' ''deny'', g),
         (Fs_write ''/proc/self/uid_map'' (id_map_line iu ou), Inr m1),
         (Fs_write ''/proc/self/gid_map'' (id_map_line ig og), Inr m2)]"
      using t by auto
    with run u t Ret show ?thesis
      by (auto simp: helper_child_def prog_simps sys_exit_def sleep_forever_run split: sum.splits)
  qed auto
qed

section \<open>Properties\<close>

text \<open>C32: The map of the helper's user namespace is the one that the id translation reads back:
  it takes exactly the outer id to the inner id and no other id.\<close>

theorem id_map_line_translates:
  "translate_lines path x (lines (id_map_line inner_id outer_id)) = Inr (if x = outer_id then inner_id else x)"
proof -
  let ?r = "\<lparr>inner_start = inner_id, outer_start = outer_id, range_length = 1\<rparr> :: id_range"
  have c: "covers ?r x \<longleftrightarrow> x = outer_id"
    by (auto simp: covers_def word_unat_eq_iff)
  have "image_id ?r x = unat inner_id" if "x = outer_id"
    using that by (simp add: image_id_def)
  moreover have bound: "unat y < 2 ^ 32" for y :: u32 using unsigned_less [of y, where ?'a = nat] by simp
  ultimately have "id_lookup [?r] x < 2 ^ 32" "id_lookup [?r] x = (if x = outer_id then unat inner_id else unat x)"
    using c bound [of x] bound [of inner_id] by (auto simp: id_lookup_def)
  then show ?thesis
    unfolding id_map_line_text by (simp add: translate_map_text)
qed

text \<open>The helper's hand-shake: the parent gets its helper only after it has read one byte from
  the pipe, and the process it opens the namespace of is the one it has forked; the child
  never returns to the caller, and writes that byte only after the namespace was unshared
  and both maps were written.\<close>

theorem helper_handshake:
  "(\<forall>ih h'. IdmapHelper_new iu ou ig og K h = (Ret ih, h') \<longrightarrow>
      (\<exists>r w n c1 c2 b. k_pair K h Pipe = Inr (r, w) \<and> n \<noteq> 0 \<and> ih_pid ih = int n \<and>
        k_fdread K (h @ [(Pipe, Inr 0), (Fork, Inr n), (Close w, c1)]) r 1 = Inr [b] \<and>
        h' = h @ [(Pipe, Inr 0), (Fork, Inr n), (Close w, c1), (Read r 1, Inr 0), (Close r, c2),
          (Open_read (''/proc/'' @ show_int (ih_pid ih) @ ''/ns/user''), Inr (ih_userns_fd ih))])) \<and>
   (\<forall>res s. (helper_child rd wr iu ou ig og :: (unit, 'e) prog) K h = (res, h @ s) \<longrightarrow>
      outcome_of res \<in> {O_exit, O_hang} \<and>
      (list_ex (is_signal wr) s \<longrightarrow> (\<exists>c a g1 m1 m2. take 5 s =
        [(Close rd, c), (Unshare_newuser, Inr a), (Fs_write ''/proc/self/setgroups'' ''deny'', g1),
         (Fs_write ''/proc/self/uid_map'' (id_map_line iu ou), Inr m1),
         (Fs_write ''/proc/self/gid_map'' (id_map_line ig og), Inr m2)])))"
proof (intro conjI allI impI)
  fix ih h'
  assume "IdmapHelper_new iu ou ig og K h = (Ret ih, h')"
  from IdmapHelper_new_Ret [OF this] show "\<exists>r w n c1 c2 b. k_pair K h Pipe = Inr (r, w) \<and> n \<noteq> 0 \<and> ih_pid ih = int n \<and>
        k_fdread K (h @ [(Pipe, Inr 0), (Fork, Inr n), (Close w, c1)]) r 1 = Inr [b] \<and>
        h' = h @ [(Pipe, Inr 0), (Fork, Inr n), (Close w, c1), (Read r 1, Inr 0), (Close r, c2),
          (Open_read (''/proc/'' @ show_int (ih_pid ih) @ ''/ns/user''), Inr (ih_userns_fd ih))]"
    by fastforce
next
  fix res s
  assume run: "(helper_child rd wr iu ou ig og :: (unit, 'e) prog) K h = (res, h @ s)"
  show "outcome_of res \<in> {O_exit, O_hang}"
    using ends_inD [OF ends_helper_child run] by blast
  assume sig: "list_ex (is_signal wr) s"
  show "\<exists>c a g1 m1 m2. take 5 s =
        [(Close rd, c), (Unshare_newuser, Inr a), (Fs_write ''/proc/self/setgroups'' ''deny'', g1),
         (Fs_write ''/proc/self/uid_map'' (id_map_line iu ou), Inr m1),
         (Fs_write ''/proc/self/gid_map'' (id_map_line ig og), Inr m2)]"
    using helper_child_signal [OF run sig] by blast
qed

theorem helper_handshake_witness:
  "\<exists>s. (helper_child 10 11 0 1000 0 100 :: (unit, unit) prog) sample [] = (Hangs, s) \<and> list_ex (is_signal 11) s \<and>
     (\<exists>m q. s ! 3 = (Fs_write ''/proc/self/uid_map'' m, Inr q) \<and> m = ''0 1000 1'' @ [NL])"
proof -
  obtain s where run: "(helper_child 10 11 0 1000 0 100 :: (unit, unit) prog) sample [] = (Hangs, [] @ s)"
      and sig: "list_ex (is_signal 11) s" and len: "3 < length s"
    by (simp add: helper_child_def setup_userns_def prog_simps sample_simps sleep_forever_run is_signal_def Let_def)
  have line: "id_map_line 0 1000 = ''0 1000 1'' @ [NL]" by code_simp
  from helper_handshake [where K = sample and h = "[]" and iu = 0 and ou = 1000 and ig = 0 and og = 100
      and rd = 10 and wr = 11 and 'e = unit]
  have "\<exists>c a g1 m1 m2. take 5 s =
        [(Close 10, c), (Unshare_newuser, Inr a), (Fs_write ''/proc/self/setgroups'' ''deny'', g1),
         (Fs_write ''/proc/self/uid_map'' (id_map_line 0 1000), Inr m1),
         (Fs_write ''/proc/self/gid_map'' (id_map_line 0 100), Inr m2)]"
    using run sig by blast
  then obtain c a g1 m1 m2 where t: "take 5 s =
        [(Close 10, c), (Unshare_newuser, Inr a), (Fs_write ''/proc/self/setgroups'' ''deny'', g1),
         (Fs_write ''/proc/self/uid_map'' (id_map_line 0 1000), Inr m1),
         (Fs_write ''/proc/self/gid_map'' (id_map_line 0 100), Inr m2)]" by blast
  have "s ! 3 = take 5 s ! 3" by simp
  then have "s ! 3 = (Fs_write ''/proc/self/uid_map'' (id_map_line 0 1000), Inr m1)" unfolding t by simp
  with run sig line show ?thesis by simp
qed

end
