(* ===== verification/Container.thy ===== *)
theory Container
  imports Errors Sample
begin

text \<open>
  \<open>container.rs\<close>: from the name of a container to the status of its main process. The
  search for the process id is the \<open>container_pid\<close> crate's.
\<close>

datatype container_error =
    Lookup string
  | InvalidPid int string
  | Container_Procfs procfs_error

definition container_chain :: "kernel \<Rightarrow> container_error \<Rightarrow> string list" where
  "container_chain K e = (case e of
      Lookup msg \<Rightarrow> [msg]
    | InvalidPid pid c \<Rightarrow> [''invalid PID '' @ show_int pid @ '' for container '' @ quoted c]
    | Container_Procfs s \<Rightarrow> ''failed to read process status of container'' # procfs_chain K s)"

interpretation container_err: error_type container_chain
  by unfold_locales (simp add: container_chain_def split: container_error.split)

definition lookup_container :: "string \<Rightarrow> nat list \<Rightarrow> ApparmorMode \<Rightarrow> (proc_status, container_error) prog" where
  "lookup_container container_name container_types apparmor_mode =
     bindP (call (Lookup_container container_name container_types)) (\<lambda>_.
     bindP (askP (\<lambda>K h. k_lookup K h container_name container_types)) (\<lambda>found.
     bindP (fromSum (map_sum Lookup id found)) (\<lambda>pid_raw.
     bindP (askP (\<lambda>K h. k_pid K pid_raw)) (\<lambda>pid_opt.
     bindP (fromSum (case pid_opt of Some p \<Rightarrow> Inr p | None \<Rightarrow> Inl (InvalidPid pid_raw container_name))) (\<lambda>pid.
     map_errP Container_Procfs (status pid apparmor_mode))))))"

lemma lookup_container_Ret:
  "lookup_container c ts m K h = (Ret ps, h') \<longleftrightarrow>
     (let h1 = h @ [(Lookup_container c ts, k_call K h (Lookup_container c ts))] in
      \<exists>raw pid. k_lookup K h1 c ts = Inr raw \<and> k_pid K raw = Some pid \<and> status pid m K h1 = (Ret ps, h'))"
  by (cases "k_lookup K (h @ [(Lookup_container c ts, k_call K h (Lookup_container c ts))]) c ts")
     (auto simp: lookup_container_def prog_inv Let_def split: option.splits)

definition is_read_only :: "event \<Rightarrow> bool" where
  "is_read_only e \<longleftrightarrow> is_lookup_event e \<or> (case fst e of Lookup_container _ _ \<Rightarrow> True | _ \<Rightarrow> False)"

lemma emits_lookup_container [emits_intros]: "emits is_read_only (lookup_container c ts m)"
  unfolding lookup_container_def
  by (intro emits_intros emits_mono [OF emits_status]) (auto simp: is_read_only_def)

lemma plain_lookup_container [outcome_intros]:
  "{O_ret, O_err} \<subseteq> S \<Longrightarrow> ends_in S (lookup_container c ts m)"
  unfolding lookup_container_def by (intro outcome_intros) auto


section \<open>A host with one container\<close>

text \<open>A kernel with a container whose process 7 can be looked up, for the worked examples: the
  answers of \<open>recvmsg\<close> and \<open>waitpid\<close> are parameters, \<open>fork\<close> answers 8.\<close>

definition sample_status_text :: string where
  "sample_status_text = ''CapEff:'' @ [TAB] @ ''1'' @ [NL]"

definition sample_last_cap :: string where
  "sample_last_cap = ''1'' @ [NL]"

definition sample_host :: "io_error + string \<times> fd list list \<Rightarrow> io_error + wait_status option \<Rightarrow> kernel" where
  "sample_host rc wt = sample\<lparr>k_call := (\<lambda>h c. case c of Fork \<Rightarrow> Inr 8 | _ \<Rightarrow> sample_call h c),
     k_read := (\<lambda>h p. (if p = ''/proc/7/status'' then sample_status_text
        else if p = ''/proc/sys/kernel/cap_last_cap'' then sample_last_cap else [], None)),
     k_stat := (\<lambda>h p. Inr (0, 0)), k_lookup := (\<lambda>h c ts. Inr 7), k_fdread := (\<lambda>h f n. Inr ''R''),
     k_recv := (\<lambda>h f n. rc), k_wait := (\<lambda>h p. wt)\<rparr>"

lemma sample_host_fields [simp]:
  "k_lookup (sample_host rc wt) h c ts = Inr 7" "k_pid (sample_host rc wt) 7 = Some 7" "k_env (sample_host rc wt) n = None"
  "k_stat (sample_host rc wt) h p = Inr (0, 0)" "k_fdread (sample_host rc wt) h f n' = Inr ''R''"
  "k_call (sample_host rc wt) h Fork = Inr 8" "k_call (sample_host rc wt) h (Open_read p) = Inr 0"
  "k_call (sample_host rc wt) h (Fsopen p) = Inr 0" "k_pair (sample_host rc wt) h c' = Inr (10, 11)"
  "k_recv (sample_host rc wt) h f m = rc" "k_wait (sample_host rc wt) h p' = wt"
  by (simp_all add: sample_host_def sample_def sample_call_def)

lemma sample_host_status:
  "\<exists>h'. status 7 Off (sample_host rc wt) h =
     (Ret \<lparr>global_pid = 7, effective_capabilities = 1, last_cap = 1, ps_uid = 0, ps_gid = 0, ps_lsm_profile = None\<rparr>, h')"
proof -
  have n: "show_int 7 = ''7''" by code_simp
  have dir: "pid_dir (sample_host rc wt) 7 = ''/proc/7''"
    by (simp add: pid_dir_def get_path_def var_os_def n path_join_def is_absolute_def)
  have paths: "path_join ''/proc/7'' ''status'' = ''/proc/7/status''" "path_join ''/proc/7'' ''uid_map'' = ''/proc/7/uid_map''"
    "path_join ''/proc/7'' ''gid_map'' = ''/proc/7/gid_map''" "path_join (get_path (sample_host rc wt)) ''sys/kernel/cap_last_cap'' = ''/proc/sys/kernel/cap_last_cap''"
    by (simp_all add: path_join_def is_absolute_def get_path_def var_os_def)
  have reads: "k_read (sample_host rc wt) h ''/proc/7/status'' = (sample_status_text, None)"
    "k_read (sample_host rc wt) h ''/proc/sys/kernel/cap_last_cap'' = (sample_last_cap, None)"
    "k_read (sample_host rc wt) h ''/proc/7/uid_map'' = ([], None)" "k_read (sample_host rc wt) h ''/proc/7/gid_map'' = ([], None)" for h
    by (simp_all add: sample_host_def)
  have digits: "parse_u64 16 ''1'' = Inr 1" "parse_u64 10 ''1'' = Inr 1"
    by (simp_all add: parse_u64_def parse_uint_def to_digit_def)
  have columns: "split_on TAB (''CapEff:'' @ [TAB] @ ''1'') = [''CapEff:'', ''1'']" by code_simp
  have "reader_lines (sample_status_text, None) = [Inr (''CapEff:'' @ [TAB] @ ''1'')]" by code_simp
  then have scan: "scan_status ''/proc/7/status'' (reader_lines (sample_status_text, None)) None = Inr (Some 1)"
    by (simp only: scan_status.simps columns Let_def) (simp add: parse_cap_def digits)
  have cap: "stream_to_string (sample_last_cap, None) = Inr sample_last_cap" "trim sample_last_cap = ''1''" by code_simp+
  have tr: "\<exists>h'. translate_id p 0 (sample_host rc wt) h = (Ret 0, h')" if "\<And>h. k_read (sample_host rc wt) h p = ([], None)" for p h
  proof -
    have "stream_to_string ([], None) = Inr []" "lines [] = []" by code_simp+
    with that show ?thesis by (simp add: translate_id_def prog_simps Let_def)
  qed
  obtain h1 where u: "translate_id ''/proc/7/uid_map'' 0 (sample_host rc wt) (h @ [(Open_read ''/proc/7/status'', Inr 0),
      (Open_read ''/proc/sys/kernel/cap_last_cap'', Inr 0), (Stat ''/proc/7'', Inr 0)]) = (Ret 0, h1)"
    using tr reads by blast
  obtain h2 where g: "translate_id ''/proc/7/gid_map'' 0 (sample_host rc wt) h1 = (Ret 0, h2)"
    using tr reads by blast
  show ?thesis
    by (simp add: status_def prog_simps Let_def dir paths reads scan cap digits u g read_profile_def)
qed

lemma sample_lookup: "\<exists>ps h'. lookup_container ''c'' [] Off (sample_host rc wt) h = (Ret ps, h')"
proof -
  let ?h1 = "h @ [(Lookup_container ''c'' [], k_call (sample_host rc wt) h (Lookup_container ''c'' []))]"
  from sample_host_status [of rc wt ?h1] show ?thesis
    by (auto simp: lookup_container_def prog_simps)
qed


section \<open>Properties\<close>

text \<open>Looking a container up changes nothing: whatever the name, the types and the answers,
  the only calls are the search for the container, the opening of files for reading and one
  look at the owner of a directory, and it ends with the status or an error.\<close>

theorem lookup_only_reads:
  "\<exists>s. snd (lookup_container c ts m K h) = h @ s \<and>
     list_all (\<lambda>e. (\<exists>p. fst e = Open_read p) \<or> (\<exists>p. fst e = Stat p) \<or> fst e = Lookup_container c ts) s \<and>
     outcome_of (fst (lookup_container c ts m K h)) \<in> {O_ret, O_err}"
proof -
  have "emits (\<lambda>e. (\<exists>p. fst e = Open_read p) \<or> (\<exists>p. fst e = Stat p) \<or> fst e = Lookup_container c ts) (lookup_container c ts m)"
    unfolding lookup_container_def
    by (intro emits_intros emits_mono [OF emits_status]) (auto simp: is_lookup_event_def split: call.splits)
  moreover have "ends_in {O_ret, O_err} (lookup_container c ts m)" by (rule plain_lookup_container) simp
  ultimately show ?thesis unfolding emits_def ends_in_def by blast
qed

end
