(* ===== verification/Passwd.thy ===== *)
theory Passwd
  imports Errors Sample
begin

text \<open>
  \<open>passwd.rs\<close>: the lookup of a user by name, with a buffer that is doubled while the entry
  does not fit.
\<close>

section \<open>Model\<close>

datatype passwd_error = InvalidName string | Getpwnam_failed string io_error

definition passwd_chain :: "kernel \<Rightarrow> passwd_error \<Rightarrow> string list" where
  "passwd_chain K e = (case e of
      InvalidName nm \<Rightarrow> [''user name '' @ quoted nm @ '' contains a NUL byte'']
    | Getpwnam_failed user s \<Rightarrow> [''getpwnam_r failed for user '' @ quoted user, k_strerror K s])"

interpretation passwd_err: error_type passwd_chain
  by unfold_locales (simp add: passwd_chain_def split: passwd_error.split)

record user =
  user_uid :: u32
  user_gid :: u32
  user_dir :: string

definition lookup_step :: "string \<Rightarrow> nat \<Rightarrow> (nat + user option, passwd_error) prog" where
  "lookup_step nm buf_len =
     bindP (query (Getpwnam nm buf_len) (\<lambda>K h. Inr (k_pwnam K h nm buf_len))) (\<lambda>r. case r of
         Inl e \<Rightarrow> throwP (Getpwnam_failed nm e)
       | Inr (Pw_error err) \<Rightarrow>
           if err = ERANGE then retP (Inl (buf_len * 2))
           else throwP (Getpwnam_failed nm (Os err))
       | Inr Pw_none \<Rightarrow> retP (Inr None)
       | Inr (Pw_entry uid gid dir) \<Rightarrow>
           retP (Inr (Some \<lparr>user_uid = uid, user_gid = gid, user_dir = from_utf8_lossy dir\<rparr>)))"

definition lookup :: "string \<Rightarrow> (user option, passwd_error) prog" where
  "lookup nm = (if NUL \<in> set nm then throwP (InvalidName nm) else loopP (lookup_step nm) 4096)"

section \<open>The sizes that are tried\<close>

definition tries :: "string \<Rightarrow> nat \<Rightarrow> hist" where
  "tries nm k = map (\<lambda>i. (Getpwnam nm (4096 * 2 ^ i), Inr 0)) [0..<k]"

definition refused :: "kernel \<Rightarrow> hist \<Rightarrow> string \<Rightarrow> nat \<Rightarrow> bool" where
  "refused K h nm k \<longleftrightarrow> (\<forall>i < k. k_pwnam K (h @ tries nm i) nm (4096 * 2 ^ i) = Pw_error ERANGE)"

lemma tries_Suc: "tries nm (Suc k) = tries nm k @ [(Getpwnam nm (4096 * 2 ^ k), Inr 0)]"
  by (simp add: tries_def)

lemma refused_Suc:
  "refused K h nm (Suc k) \<longleftrightarrow> refused K h nm k \<and> k_pwnam K (h @ tries nm k) nm (4096 * 2 ^ k) = Pw_error ERANGE"
  by (auto simp: refused_def less_Suc_eq)

lemma lookup_rounds:
  "rounds (lookup_step nm) K 4096 h n h1 \<longleftrightarrow>
     (\<exists>k. n = 4096 * 2 ^ k \<and> h1 = h @ tries nm k \<and> refused K h nm k)"
proof
  assume "rounds (lookup_step nm) K 4096 h n h1"
  then show "\<exists>k. n = 4096 * 2 ^ k \<and> h1 = h @ tries nm k \<and> refused K h nm k"
  proof (induction rule: rounds.induct)
    case rounds_start
    show ?case by (intro exI [of _ 0]) (simp add: tries_def refused_def)
  next
    case (rounds_next n1 h1 n2 h2)
    then obtain k where "n1 = 4096 * 2 ^ k" "h1 = h @ tries nm k" "refused K h nm k" by blast
    with rounds_next.hyps(2) show ?case
      by (intro exI [of _ "Suc k"])
        (auto simp: lookup_step_def prog_inv tries_Suc refused_Suc split: sum.splits pw_reply.splits if_splits)
  qed
next
  assume "\<exists>k. n = 4096 * 2 ^ k \<and> h1 = h @ tries nm k \<and> refused K h nm k"
  then obtain k where k: "n = 4096 * 2 ^ k" "h1 = h @ tries nm k" "refused K h nm k" by blast
  from k(3) have "rounds (lookup_step nm) K 4096 h (4096 * 2 ^ k) (h @ tries nm k)"
  proof (induction k)
    case 0
    show ?case by (simp add: tries_def rounds_start)
  next
    case (Suc k)
    then have "rounds (lookup_step nm) K 4096 h (4096 * 2 ^ k) (h @ tries nm k)"
      by (simp add: refused_Suc)
    then show ?case
      by (rule rounds_next) (use Suc.prems in \<open>simp add: lookup_step_def prog_simps refused_Suc tries_Suc\<close>)
  qed
  with k show "rounds (lookup_step nm) K 4096 h n h1" by simp
qed

definition pw_result :: "string \<Rightarrow> pw_reply \<Rightarrow> (user option, passwd_error) res" where
  "pw_result nm r = (case r of
      Pw_error err \<Rightarrow> Err (Getpwnam_failed nm (Os err))
    | Pw_none \<Rightarrow> Ret None
    | Pw_entry uid gid dir \<Rightarrow> Ret (Some \<lparr>user_uid = uid, user_gid = gid, user_dir = from_utf8_lossy dir\<rparr>))"

lemma lookup_loop:
  assumes "refused K h nm k" "k_pwnam K (h @ tries nm k) nm (4096 * 2 ^ k) = r" "r \<noteq> Pw_error ERANGE"
  shows "loopP (lookup_step nm) 4096 K h = (pw_result nm r, h @ tries nm (Suc k))"
proof (rule rounds_run)
  show "rounds (lookup_step nm) K 4096 h (4096 * 2 ^ k) (h @ tries nm k)"
    using assms(1) by (auto simp: lookup_rounds)
  show "lookup_step nm (4096 * 2 ^ k) K (h @ tries nm k) = (map_res Inr id (pw_result nm r), h @ tries nm (Suc k))"
    using assms(2,3) by (auto simp: lookup_step_def prog_simps pw_result_def tries_Suc split: pw_reply.splits)
qed

lemma ends_lookup [outcome_intros]:
  "{O_ret, O_err, O_hang} \<subseteq> S \<Longrightarrow> ends_in S (lookup nm)"
  unfolding lookup_def lookup_step_def
  by (intro outcome_intros) (auto split: pw_reply.split intro: outcome_intros)

section \<open>Properties\<close>

text \<open>C34: The lookup of a user ends as soon as the entry fits: when the buffers of 4096, 8192, ...
  bytes are refused and that of \<open>4096 * 2 ^ k\<close> bytes is not, the result is what the database
  answers to that last call (the entry, no such user, or the error), and exactly these
  \<open>k + 1\<close> calls are made.\<close>

theorem lookup_first_fit:
  assumes "NUL \<notin> set nm" "\<forall>i < k. k_pwnam K (h @ tries nm i) nm (4096 * 2 ^ i) = Pw_error ERANGE"
    and "k_pwnam K (h @ tries nm k) nm (4096 * 2 ^ k) \<noteq> Pw_error ERANGE"
  shows "lookup nm K h = (case k_pwnam K (h @ tries nm k) nm (4096 * 2 ^ k) of
      Pw_error err \<Rightarrow> Err (Getpwnam_failed nm (Os err))
    | Pw_none \<Rightarrow> Ret None
    | Pw_entry uid gid dir \<Rightarrow> Ret (Some \<lparr>user_uid = uid, user_gid = gid, user_dir = from_utf8_lossy dir\<rparr>),
    h @ map (\<lambda>i. (Getpwnam nm (4096 * 2 ^ i), Inr 0)) [0..<Suc k])"
  using lookup_loop [of K h nm k, OF _ refl] assms
  by (simp add: lookup_def refused_def pw_result_def tries_def del: upt_Suc)

theorem lookup_first_fit_witness:
  "lookup ''joerg'' (sample\<lparr>k_pwnam := (\<lambda>h u n. if n < 5000 then Pw_error ERANGE else Pw_entry 1000 100 ''/home/joerg'')\<rparr>) [] =
     (Ret (Some \<lparr>user_uid = 1000, user_gid = 100, user_dir = ''/home/joerg''\<rparr>),
      [(Getpwnam ''joerg'' 4096, Inr 0), (Getpwnam ''joerg'' 8192, Inr 0)])"
proof -
  have dir: "from_utf8_lossy ''/home/joerg'' = ''/home/joerg''" by code_simp
  show ?thesis
    by (subst lookup_first_fit [where k = 1]) (simp_all add: dir upt_rec)
qed

end
