(* ===== verification/Attach.thy ===== *)
theory Attach
  imports Idmap_Helper Container Passwd Sample
begin

text \<open>
  \<open>attach/\<close>: the parent that forwards and waits, the child that assembles the mount
  hierarchy and becomes the command, and the set-up of the two. The child's \<open>run\<close> is one
  function in the code; here it is the sequence of its four stretches.
\<close>

section \<open>Errors\<close>

datatype attach_error =
    Attach_MountApiUnavailable
  | Attach_LookupContainer string container_error
  | Attach_IdmapHelper idmap_error
  | Attach_Ipc ipc_error
  | Attach_Fork io_error
  | ChildNotReady
  | Attach_Pty pty_error
  | Attach_Cgroup cgroup_error
  | Attach_Cmd cmd_error
  | Attach_Namespace namespace_error
  | Attach_MountNamespaceUnsupported
  | CreateBaseDir string io_error
  | OpenContainerRoot string io_error
  | UnshareMountNamespace io_error
  | MakeMountsPrivate io_error
  | OpenProcMounts io_error
  | MountTmpfs string io_error
  | ReadContainerRootDir io_error
  | Attach_Setup setup_error
  | Attach_Lsm lsm_error

definition mount_api_message :: string where
  "mount_api_message =
     ''Linux mount API is not available. cntr requires kernel 6.8+ with mount API support.'' @ [NL]
     @ ''Please upgrade your kernel or use an older version of cntr with FUSE support.''"

definition attach_chain :: "kernel \<Rightarrow> attach_error \<Rightarrow> string list" where
  "attach_chain K e = (case e of
      Attach_MountApiUnavailable \<Rightarrow> [mount_api_message]
    | Attach_LookupContainer c s \<Rightarrow> (''failed to lookup container '' @ quoted c) # container_chain K s
    | Attach_IdmapHelper s \<Rightarrow> ''failed to create idmap helper for --effective-user'' # idmap_chain K s
    | Attach_Ipc s \<Rightarrow> ''failed to set up ipc'' # ipc_chain K s
    | Attach_Fork s \<Rightarrow> [''failed to fork'', k_strerror K s]
    | ChildNotReady \<Rightarrow> [''child did not send ready signal'']
    | Attach_Pty s \<Rightarrow> pty_chain K s
    | Attach_Cgroup s \<Rightarrow> ''failed to change cgroup'' # cgroup_chain K s
    | Attach_Cmd s \<Rightarrow> cmd_chain K s
    | Attach_Namespace s \<Rightarrow> namespace_chain K s
    | Attach_MountNamespaceUnsupported \<Rightarrow> [''the system has no support for mount namespaces'']
    | CreateBaseDir path s \<Rightarrow> [''failed to create '' @ display_path path, k_strerror K s]
    | OpenContainerRoot path s \<Rightarrow> [''failed to open container root at '' @ path, k_strerror K s]
    | UnshareMountNamespace s \<Rightarrow> [''failed to unshare mount namespace'', k_strerror K s]
    | MakeMountsPrivate s \<Rightarrow> [''failed to make mounts private'', k_strerror K s]
    | OpenProcMounts s \<Rightarrow> [''failed to open /proc/mounts'', k_strerror K s]
    | MountTmpfs path s \<Rightarrow> [''failed to mount tmpfs at '' @ display_path path, k_strerror K s]
    | ReadContainerRootDir s \<Rightarrow> [''failed to read container root directory'', k_strerror K s]
    | Attach_Setup s \<Rightarrow> setup_chain K s
    | Attach_Lsm s \<Rightarrow> ''failed to inherit AppArmor profile'' # lsm_chain K s)"

interpretation attach_err: error_type attach_chain
  by unfold_locales (simp add: attach_chain_def pty_err.chain_nonempty cmd_err.chain_nonempty
      namespace_err.chain_nonempty setup_err.chain_nonempty split: attach_error.split)

section \<open>The child: id-mapped mounts\<close>

text \<open>\<open>AT_FDCWD\<close> is -100; descriptors are natural numbers here.\<close>

definition CWD :: fd where "CWD = 2 ^ 32 - 100"

definition attach_tree :: "fd \<Rightarrow> string \<Rightarrow> (io_error + unit, 'e) prog" where
  "attach_tree tree target =
     bindP (call (Move_mount tree target)) (\<lambda>r. retP (case r of Inl e \<Rightarrow> Inl e | Inr _ \<Rightarrow> Inr ()))"

definition skip_fstypes :: "string list" where
  "skip_fstypes = [''proc'', ''sysfs'', ''devtmpfs'', ''devpts'', ''cgroup'', ''cgroup2'', ''securityfs'',
     ''debugfs'', ''tracefs'', ''pstore'', ''efivarfs'', ''mqueue'', ''hugetlbfs'', ''autofs'', ''fusectl'',
     ''configfs'', ''rpc_pipefs'', ''binfmt_misc'', ''overlay'']"

definition idmap_mount_point :: "fd \<Rightarrow> string \<Rightarrow> (unit, 'e) prog" where
  "idmap_mount_point userns_fd mount_point =
     bindP (call (Open_tree CWD mount_point)) (\<lambda>r. case r of
         Inl e \<Rightarrow> retP ()
       | Inr tree \<Rightarrow>
           bindP (make_mount_idmapped tree userns_fd) (\<lambda>r2. case r2 of
               Inl e \<Rightarrow> retP ()
             | Inr _ \<Rightarrow> bindP (attach_tree tree mount_point) (\<lambda>r3. retP ())))"

definition idmap_line :: "fd \<Rightarrow> string \<Rightarrow> io_error + string \<Rightarrow> (unit, 'e) prog" where
  "idmap_line userns_fd base_dir line = (case line of
      Inl e \<Rightarrow> retP ()
    | Inr l \<Rightarrow>
       (let parts = split_whitespace l in
        if length parts < 3 then retP () else
        let mount_point = parts ! 1; fstype = parts ! 2 in
        if fstype \<in> set skip_fstypes then retP () else
        if path_starts_with mount_point base_dir then retP () else
        idmap_mount_point userns_fd mount_point))"

text \<open>A read error is skipped like a bad line; since every further read repeats it, the loop
  does not end then.\<close>

definition apply_idmapped_mounts :: "fd \<Rightarrow> string \<Rightarrow> (unit, attach_error) prog" where
  "apply_idmapped_mounts userns_fd base_dir =
     bindP (tryP OpenProcMounts (open_stream ''/proc/mounts'')) (\<lambda>st.
     bindP (forP (idmap_line userns_fd base_dir) (reader_lines st)) (\<lambda>_.
     if snd st \<noteq> None then hangP else retP ()))"

section \<open>The child: time zone and the container's trees\<close>

definition setup_container_timezone :: "fd \<Rightarrow> string \<Rightarrow> (string option, 'e) prog" where
  "setup_container_timezone container_root_fd base_dir =
     bindP (call (Openat_in_root container_root_fd ''etc/localtime'')) (\<lambda>r. case r of
         Inl e \<Rightarrow> retP None
       | Inr localtime_fd \<Rightarrow>
           bindP (query (Read_to_end localtime_fd) (\<lambda>K h. k_fdall K h localtime_fd)) (\<lambda>r2. case r2 of
               Inl e \<Rightarrow> retP None
             | Inr contents \<Rightarrow>
                 (let copy_path = path_join base_dir ''.localtime'' in
                  bindP (call (Fs_write copy_path contents)) (\<lambda>r3. case r3 of
                      Inl e \<Rightarrow> retP None
                    | Inr _ \<Rightarrow>
                        bindP (call (Mount_bind copy_path ''/etc/localtime'')) (\<lambda>_. retP (Some copy_path))))))"

text \<open>\<open>Path::parent\<close> of a path, as text: without its last component, nor the separators (and
  \<open>.\<close> pieces) before that.\<close>

fun trim_path_tail :: "string \<Rightarrow> string" where
  "trim_path_tail r = (case r of
      c # r1 \<Rightarrow> if c = SLASH then trim_path_tail r1
        else (case r1 of d # r2 \<Rightarrow> if c = CHR ''.'' \<and> d = SLASH then trim_path_tail r2 else r | [] \<Rightarrow> r)
    | [] \<Rightarrow> [])"

declare trim_path_tail.simps [simp del]

definition path_parent :: "string \<Rightarrow> string option" where
  "path_parent p = (case rev (components p) of
      [] \<Rightarrow> None
    | RootDir # _ \<Rightarrow> None
    | _ # rest \<Rightarrow>
        (let q = rev (trim_path_tail (dropWhile (\<lambda>c. c \<noteq> SLASH) (trim_path_tail (rev p)))) in
         Some (if q = [] \<and> is_absolute p then [SLASH] else q)))"

text \<open>The file type bits of a mode.\<close>

definition mode_is_dir :: "nat \<Rightarrow> bool" where
  "mode_is_dir st_mode \<longleftrightarrow> and st_mode 0xF000 = 0x4000"

definition entry_is_dir :: "fd \<Rightarrow> string \<times> file_type \<Rightarrow> (bool, 'e) prog" where
  "entry_is_dir dir_fd entry = (case entry of (name, file_type) \<Rightarrow> (case file_type of
      Directory \<Rightarrow> retP True
    | Unknown \<Rightarrow> bindP (call (Statat dir_fd name)) (\<lambda>r. retP (case r of
          Inr st_mode \<Rightarrow> mode_is_dir st_mode | Inl e \<Rightarrow> False))
    | _ \<Rightarrow> retP False))"

definition capture_step :: "fd \<Rightarrow> string \<times> file_type \<Rightarrow> (string \<times> fd \<times> bool) list \<Rightarrow>
    ((string \<times> fd \<times> bool) list, 'e) prog" where
  "capture_step dir_fd entry acc =
     bindP (entry_is_dir dir_fd entry) (\<lambda>is_dir.
     bindP (call (Open_tree dir_fd (fst entry))) (\<lambda>r. retP (case r of
         Inr tree \<Rightarrow> acc @ [(fst entry, tree, is_dir)] | Inl e \<Rightarrow> acc)))"

definition is_ok :: "call \<Rightarrow> (bool, 'e) prog" where
  "is_ok c = bindP (call c) (\<lambda>r. retP (case r of Inr _ \<Rightarrow> True | Inl e \<Rightarrow> False))"

definition create_mount_point :: "string \<Rightarrow> bool \<Rightarrow> (bool, 'e) prog" where
  "create_mount_point target is_dir =
     (if is_dir then is_ok (Create_dir_all target) else
      bindP (case path_parent target of Some p \<Rightarrow> is_ok (Create_dir_all p) | None \<Rightarrow> retP True) (\<lambda>ok.
      if ok then is_ok (Create target) else retP False))"

definition attach_captured :: "string \<Rightarrow> string \<times> fd \<times> bool \<Rightarrow> (unit, 'e) prog" where
  "attach_captured base_dir captured = (case captured of (name, tree, is_dir) \<Rightarrow>
     (let target = path_join base_dir name in
      bindP (create_mount_point target is_dir) (\<lambda>mount_point_created.
      if \<not> mount_point_created then retP ()
      else bindP (attach_tree tree target) (\<lambda>_. retP ()))))"

definition root_entries :: "(io_error + string \<times> file_type) list \<Rightarrow> (string \<times> file_type) list" where
  "root_entries dir = filter (\<lambda>(name, ft). name \<noteq> ''.'' \<and> name \<noteq> ''..'')
     (List.map_filter (\<lambda>e. case e of Inr x \<Rightarrow> Some x | Inl _ \<Rightarrow> None) dir)"

definition capture_and_attach_container_trees :: "fd \<Rightarrow> pid \<Rightarrow> namespace \<Rightarrow> string \<Rightarrow>
    (unit, attach_error) prog" where
  "capture_and_attach_container_trees container_root_fd container_pid our_mount_ns base_dir =
     bindP (map_errP Attach_Namespace (bindP (ns_open MOUNT container_pid) ns_apply)) (\<lambda>_.
     bindP (tryP ReadContainerRootDir
              (query (Dir_entries container_root_fd) (\<lambda>K h. k_entries K h container_root_fd))) (\<lambda>dir.
     bindP (foldP (capture_step container_root_fd) (root_entries dir) []) (\<lambda>captured_trees.
     bindP (map_errP Attach_Namespace (ns_apply our_mount_ns)) (\<lambda>_.
     forP (attach_captured base_dir) captured_trees))))"

section \<open>The child\<close>

record child_options =
  co_command :: "string option"
  co_arguments :: "string list"
  process_status :: proc_status
  co_socket :: socket
  co_userns_fd :: "fd option"
  effective_home :: "string option"

text \<open>Steps 1 to 4: the cgroup, the command, the namespaces other than mount.\<close>

definition child_prepare :: "child_options \<Rightarrow> (cmd \<times> namespace list, attach_error) prog" where
  "child_prepare options =
     bindP (askP (\<lambda>K h. k_getpid K h)) (\<lambda>self.
     bindP (map_errP Attach_Cgroup (move_to self (global_pid (process_status options)))) (\<lambda>_.
     bindP (map_errP Attach_Cmd (Cmd_new (co_command options) (co_arguments options)
              (global_pid (process_status options)) (effective_home options))) (\<lambda>cmd.
     bindP (map_errP Attach_Namespace supported_namespaces) (\<lambda>supported.
     if kname MOUNT \<notin> supported then throwP Attach_MountNamespaceUnsupported else
     bindP (map_errP Attach_Namespace
              (open_other_namespaces supported (global_pid (process_status options)))) (\<lambda>other_namespaces.
     retP (cmd, other_namespaces))))))"

text \<open>Step 5: the private mount namespace, the tmpfs and the container's trees.\<close>

definition child_mounts :: "child_options \<Rightarrow> (string \<times> string option, attach_error) prog" where
  "child_mounts options =
     bindP (askP get_base_dir) (\<lambda>base_dir.
     bindP (tryP (CreateBaseDir base_dir) (call (Create_dir_all base_dir))) (\<lambda>_.
     let proc_root_path = ''/proc/'' @ show_int (global_pid (process_status options)) @ ''/root'' in
     bindP (tryP (OpenContainerRoot proc_root_path) (call (Open_read proc_root_path))) (\<lambda>container_root_fd.
     bindP (tryP UnshareMountNamespace (call Unshare_newns)) (\<lambda>_.
     bindP (tryP MakeMountsPrivate (call (Mount_private ''/''))) (\<lambda>_.
     bindP (case co_userns_fd options of
         Some userns_fd \<Rightarrow> apply_idmapped_mounts userns_fd base_dir
       | None \<Rightarrow> retP ()) (\<lambda>_.
     bindP (askP (\<lambda>K h. k_getpid K h)) (\<lambda>self.
     bindP (map_errP Attach_Namespace (ns_open MOUNT self)) (\<lambda>our_mount_ns.
     bindP (tryP (MountTmpfs base_dir) (call (Mount_tmpfs base_dir))) (\<lambda>_.
     bindP (setup_container_timezone container_root_fd base_dir) (\<lambda>localtime_copy.
     bindP (capture_and_attach_container_trees container_root_fd (global_pid (process_status options))
              our_mount_ns base_dir) (\<lambda>_.
     retP (base_dir, localtime_copy))))))))))))"

definition add_tz :: "string option \<Rightarrow> cmd \<Rightarrow> cmd" where
  "add_tz localtime_copy cmd = (case localtime_copy of
      Some path \<Rightarrow> env_default ''TZ'' (CHR '':'' # display_path path) cmd | None \<Rightarrow> cmd)"

text \<open>Step 7: a terminal of its own, unless standard input or output is redirected.\<close>

definition setup_pty :: "(fd option, attach_error) prog" where
  "setup_pty =
     bindP stdio_is_tty (\<lambda>is_tty.
     if is_tty then
       bindP (map_errP Attach_Pty open_ptm) (\<lambda>pty_master.
       bindP (map_errP Attach_Pty (attach_pts pty_master)) (\<lambda>_. retP (Some pty_master)))
     else retP None)"

text \<open>Steps 6 to 8: the other namespaces, the terminal, the credentials.\<close>

definition child_enter :: "child_options \<Rightarrow> namespace list \<Rightarrow> (fd option, attach_error) prog" where
  "child_enter options other_namespaces =
     (let in_user_ns = list_ex (\<lambda>ns. kname (ns_kind ns) = kname USER) other_namespaces in
      bindP (forP (\<lambda>ns. map_errP Attach_Namespace (ns_apply ns)) other_namespaces) (\<lambda>_.
      bindP setup_pty (\<lambda>pty_master.
      bindP (map_errP Attach_Setup (apply_security_context (process_status options) in_user_ns)) (\<lambda>_.
      retP pty_master))))"

definition ready_msg :: string where "ready_msg = ''R''"

text \<open>Steps 9 to 12: the ready message, the directory, the profile, the command.\<close>

definition child_finish :: "child_options \<Rightarrow> string \<Rightarrow> cmd \<Rightarrow> fd option \<Rightarrow> (unit, attach_error) prog" where
  "child_finish options base_dir cmd pty_master =
     bindP (map_errP Attach_Ipc (case pty_master of
         Some pty_fd \<Rightarrow> send (co_socket options) [ready_msg] [pty_fd]
       | None \<Rightarrow> send (co_socket options) [ready_msg] [])) (\<lambda>_.
     bindP (call (Chdir base_dir)) (\<lambda>_.
     bindP (case ps_lsm_profile (process_status options) of
         Some prof \<Rightarrow> map_errP Attach_Lsm (inherit_profile prof)
       | None \<Rightarrow> retP ()) (\<lambda>_.
     map_errP Attach_Cmd (exec_in_overlay cmd))))"

definition child_run :: "child_options \<Rightarrow> (unit, attach_error) prog" where
  "child_run options =
     bindP (child_prepare options) (\<lambda>(cmd, other_namespaces).
     bindP (child_mounts options) (\<lambda>(base_dir, localtime_copy).
     let cmd' = add_tz localtime_copy cmd in
     bindP (child_enter options other_namespaces) (\<lambda>pty_master.
     child_finish options base_dir cmd' pty_master)))"

section \<open>The parent\<close>

definition parent_run :: "pid \<Rightarrow> socket \<Rightarrow> (unit, attach_error) prog" where
  "parent_run child_pid socket =
     bindP (map_errP Attach_Ipc (receive socket 1)) (\<lambda>(msg_buf, fds).
     if msg_buf = [] \<or> msg_buf ! 0 \<noteq> CHR ''R'' then throwP ChildNotReady else
     (case fds of
        [] \<Rightarrow> map_errP Attach_Pty (wait_for_child child_pid)
      | pty_fd # _ \<Rightarrow> map_errP Attach_Pty (forward_pty_and_wait pty_fd child_pid)))"

section \<open>\<open>attach\<close>\<close>

record attach_options =
  ao_command :: "string option"
  ao_arguments :: "string list"
  ao_container_name :: string
  ao_container_types :: "nat list"
  ao_effective_user :: "user option"
  ao_apparmor_mode :: ApparmorMode

text \<open>The body of the child after the fork: an error is reported and the process exits. The
  last case cannot happen, \<open>child_run\<close> does not return a value.\<close>

definition attach_child :: "child_options \<Rightarrow> (unit, attach_error) prog" where
  "attach_child options =
     bindP (attemptP (child_run options)) (\<lambda>r. case r of
         Inl e \<Rightarrow>
           bindP (askP (\<lambda>K h. format_chain (attach_chain K e))) (\<lambda>msg.
           bindP (eprint (''attach child failed: '' @ msg)) (\<lambda>_. exitP 1))
       | Inr _ \<Rightarrow> panicP)"

definition attach_fork :: "attach_options \<Rightarrow> proc_status \<Rightarrow> idmap_helper option \<Rightarrow> (unit, attach_error) prog" where
  "attach_fork opts status_of idmap_helper =
     bindP (map_errP Attach_Ipc socket_pair) (\<lambda>(parent_sock, child_sock).
     bindP (map_errP Attach_Fork fork) (\<lambda>f. case f of
         ParentOf child \<Rightarrow>
           bindP (call (Close (sock_fd child_sock))) (\<lambda>_. parent_run child parent_sock)
       | Fork_Child \<Rightarrow>
           bindP (call (Close (sock_fd parent_sock))) (\<lambda>_.
           attach_child \<lparr>co_command = ao_command opts, co_arguments = ao_arguments opts,
             process_status = status_of, co_socket = child_sock,
             co_userns_fd = map_option ih_userns_fd idmap_helper,
             effective_home = map_option user_dir (ao_effective_user opts)\<rparr>)))"

text \<open>The helper is dropped when the function is left by return, error or panic.\<close>

definition attach :: "attach_options \<Rightarrow> (unit, attach_error) prog" where
  "attach opts =
     bindP (has_mount_api None) (\<lambda>(available, _).
     if \<not> available then throwP Attach_MountApiUnavailable else
     bindP (map_errP (Attach_LookupContainer (ao_container_name opts))
              (lookup_container (ao_container_name opts) (ao_container_types opts) (ao_apparmor_mode opts)))
       (\<lambda>status_of.
     case ao_effective_user opts of
       None \<Rightarrow> attach_fork opts status_of None
     | Some user \<Rightarrow>
         bindP (askP (\<lambda>K h. (k_uid K h, k_gid K h))) (\<lambda>(current_uid, current_gid).
         bindP (map_errP Attach_IdmapHelper
                  (IdmapHelper_new (user_uid user) current_uid (user_gid user) current_gid)) (\<lambda>helper.
         finallyP (attach_fork opts status_of (Some helper)) (IdmapHelper_drop helper)))))"

section \<open>How the processes end\<close>

lemma ends_apply_idmapped [outcome_intros]:
  "{O_ret, O_err, O_hang} \<subseteq> S \<Longrightarrow> ends_in S (apply_idmapped_mounts u b)"
  unfolding apply_idmapped_mounts_def idmap_line_def idmap_mount_point_def attach_tree_def
  by (intro outcome_intros) auto

lemma ends_timezone [outcome_intros]: "O_ret \<in> S \<Longrightarrow> ends_in S (setup_container_timezone r b)"
  unfolding setup_container_timezone_def by (intro outcome_intros) auto

lemma ends_capture_step [outcome_intros]: "O_ret \<in> S \<Longrightarrow> ends_in S (capture_step d e acc)"
  unfolding capture_step_def entry_is_dir_def
  by (intro outcome_intros) (auto intro!: outcome_intros split: file_type.split prod.split)

lemma ends_attach_captured [outcome_intros]: "O_ret \<in> S \<Longrightarrow> ends_in S (attach_captured b c)"
  unfolding attach_captured_def create_mount_point_def is_ok_def attach_tree_def
  by (intro outcome_intros) auto

lemma ends_capture [outcome_intros]:
  "{O_ret, O_err} \<subseteq> S \<Longrightarrow> ends_in S (capture_and_attach_container_trees r p n b)"
  unfolding capture_and_attach_container_trees_def by (intro outcome_intros) auto

lemma ends_child_prepare [outcome_intros]:
  "{O_ret, O_err, O_hang} \<subseteq> S \<Longrightarrow> ends_in S (child_prepare opts)"
  unfolding child_prepare_def
  by (intro outcome_intros ends_in_mono [OF top.mv_plain] ends_in_mono [OF opener.opn_plain]) auto

lemma ends_child_mounts [outcome_intros]:
  "{O_ret, O_err, O_hang} \<subseteq> S \<Longrightarrow> ends_in S (child_mounts opts)"
  unfolding child_mounts_def by (intro outcome_intros) auto

lemma ends_child_enter [outcome_intros]:
  "{O_ret, O_err, O_panic} \<subseteq> S \<Longrightarrow> ends_in S (child_enter opts nss)"
  unfolding child_enter_def setup_pty_def by (intro outcome_intros) auto

lemma ends_child_finish [outcome_intros]:
  "{O_err, O_exec} \<subseteq> S \<Longrightarrow> ends_in S (child_finish opts b c p)"
  unfolding child_finish_def by (intro outcome_intros) (auto simp: MAX_FDS_def)

lemma ends_child_run [outcome_intros]:
  "{O_err, O_exec, O_panic, O_hang} \<subseteq> S \<Longrightarrow> ends_in S (child_run opts)"
  unfolding child_run_def by (intro outcome_intros) auto

lemma ends_parent_run [outcome_intros]:
  "{O_err, O_exit, O_panic, O_hang} \<subseteq> S \<Longrightarrow> ends_in S (parent_run c s)"
  unfolding parent_run_def by (intro outcome_intros) auto

lemma ends_attach_child [outcome_intros]:
  "{O_exit, O_exec, O_panic, O_hang} \<subseteq> S \<Longrightarrow> ends_in S (attach_child opts)"
  unfolding attach_child_def by (intro outcome_intros) auto

lemma ends_attach_fork [outcome_intros]:
  "{O_err, O_exit, O_exec, O_panic, O_hang} \<subseteq> S \<Longrightarrow> ends_in S (attach_fork opts ps ih)"
  unfolding attach_fork_def
  by (intro outcome_intros) (auto intro!: outcome_intros split: fork_result.split)

lemma ends_attach [outcome_intros]:
  "{O_err, O_exit, O_exec, O_panic, O_hang} \<subseteq> S \<Longrightarrow> ends_in S (attach opts)"
  unfolding attach_def by (intro outcome_intros) auto

section \<open>The stages of the child\<close>

text \<open>The decisive steps of the child, in the order in which they have to happen.\<close>

datatype stage = S_Unshare | S_Private | S_Idmap | S_Tmpfs | S_Namespace | S_Terminal | S_Credentials
  | S_Capabilities | S_Ready | S_Chdir | S_Exec

definition stage_rank :: "stage \<Rightarrow> nat" where
  "stage_rank s = (case s of S_Unshare \<Rightarrow> 0 | S_Private \<Rightarrow> 1 | S_Idmap \<Rightarrow> 2 | S_Tmpfs \<Rightarrow> 3 | S_Namespace \<Rightarrow> 4
     | S_Terminal \<Rightarrow> 5 | S_Credentials \<Rightarrow> 6 | S_Capabilities \<Rightarrow> 7 | S_Ready \<Rightarrow> 8 | S_Chdir \<Rightarrow> 9 | S_Exec \<Rightarrow> 10)"

instantiation stage :: linorder
begin

definition less_eq_stage :: "stage \<Rightarrow> stage \<Rightarrow> bool" where
  "less_eq_stage a b \<longleftrightarrow> stage_rank a \<le> stage_rank b"

definition less_stage :: "stage \<Rightarrow> stage \<Rightarrow> bool" where
  "less_stage a b \<longleftrightarrow> stage_rank a < stage_rank b"

instance
proof
  fix a b :: stage
  show "a \<le> b \<Longrightarrow> b \<le> a \<Longrightarrow> a = b"
    by (cases a; cases b) (simp_all add: less_eq_stage_def stage_rank_def)
qed (auto simp: less_eq_stage_def less_stage_def)

end

definition stage_of :: "event \<Rightarrow> stage option" where
  "stage_of e = (case fst e of
      Unshare_newns \<Rightarrow> Some S_Unshare
    | Mount_private _ \<Rightarrow> Some S_Private
    | Mount_setattr_idmap _ _ \<Rightarrow> Some S_Idmap
    | Mount_tmpfs _ \<Rightarrow> Some S_Tmpfs
    | Setns _ \<Rightarrow> Some S_Namespace
    | Setsid \<Rightarrow> Some S_Terminal
    | Set_groups _ \<Rightarrow> Some S_Credentials
    | Set_gid _ \<Rightarrow> Some S_Credentials
    | Set_uid _ \<Rightarrow> Some S_Credentials
    | Drop_bounding _ \<Rightarrow> Some S_Capabilities
    | Sendmsg _ _ _ \<Rightarrow> Some S_Ready
    | Chdir _ \<Rightarrow> Some S_Chdir
    | Execve _ _ _ \<Rightarrow> Some S_Exec
    | _ \<Rightarrow> None)"

definition stages :: "hist \<Rightarrow> stage list" where
  "stages s = List.map_filter stage_of s"

lemma stages_append [simp]: "stages (s @ t) = stages s @ stages t"
  by (simp add: stages_def List.map_filter_def)

text \<open>\<open>staged a b m\<close>: the stages of \<open>m\<close> are in order and all between \<open>a\<close> and \<open>b\<close>.\<close>

definition staged :: "stage \<Rightarrow> stage \<Rightarrow> ('a, 'e) prog \<Rightarrow> bool" where
  "staged a b m \<longleftrightarrow> (\<forall>K h. \<exists>s. snd (m K h) = h @ s \<and> sorted (stages s) \<and> (\<forall>x \<in> set (stages s). a \<le> x \<and> x \<le> b))"

lemma stagedD:
  "staged a b m \<Longrightarrow> m K h = (r, h') \<Longrightarrow>
   \<exists>s. h' = h @ s \<and> sorted (stages s) \<and> (\<forall>x \<in> set (stages s). a \<le> x \<and> x \<le> b)"
  unfolding staged_def by (metis snd_conv)

lemma staged_bind:
  assumes "staged a b m" "\<And>x. staged b c (f x)" "a \<le> b" "b \<le> c"
  shows "staged a c (bindP m f)"
  unfolding staged_def
proof (intro allI)
  fix K h
  obtain r h1 where m: "m K h = (r, h1)" by fastforce
  from stagedD [OF assms(1) m] obtain s where
    s: "h1 = h @ s" "sorted (stages s)" "\<forall>x \<in> set (stages s). a \<le> x \<and> x \<le> b" by blast
  show "\<exists>s. snd (bindP m f K h) = h @ s \<and> sorted (stages s) \<and> (\<forall>x \<in> set (stages s). a \<le> x \<and> x \<le> c)"
  proof (cases "\<exists>x. r = Ret x")
    case True
    then obtain x where x: "r = Ret x" by blast
    obtain r2 h2 where f: "f x K h1 = (r2, h2)" by fastforce
    from stagedD [OF assms(2) f] obtain t where
      t: "h2 = h1 @ t" "sorted (stages t)" "\<forall>x \<in> set (stages t). b \<le> x \<and> x \<le> c" by blast
    show ?thesis
    proof (intro exI conjI)
      show "snd (bindP m f K h) = h @ s @ t" using m x f s t by (simp add: bindP_run)
      show "sorted (stages (s @ t))" using s t by (fastforce simp: sorted_append)
      show "\<forall>x \<in> set (stages (s @ t)). a \<le> x \<and> x \<le> c" using s t assms(3,4) by fastforce
    qed
  next
    case False
    with m s assms(4) show ?thesis by (cases r) (fastforce simp: bindP_run)+
  qed
qed

lemma staged_emits:
  assumes "emits (\<lambda>e. \<forall>x. stage_of e = Some x \<longrightarrow> x = a) m"
  shows "staged a a m"
  unfolding staged_def
proof (intro allI)
  fix K h
  obtain r h1 where m: "m K h = (r, h1)" by fastforce
  from emitsD [OF assms m] obtain s where
    s: "h1 = h @ s" "list_all (\<lambda>e. \<forall>x. stage_of e = Some x \<longrightarrow> x = a) s" by blast
  from s(2) have all: "\<forall>x \<in> set (stages s). x = a"
    by (auto simp: stages_def List.map_filter_def list_all_iff)
  then have "stages s = replicate (length (stages s)) a" by (simp add: replicate_length_same)
  then have "sorted (stages s)" by (metis sorted_replicate)
  with m s all show "\<exists>s. snd (m K h) = h @ s \<and> sorted (stages s) \<and> (\<forall>x \<in> set (stages s). a \<le> x \<and> x \<le> a)"
    by auto
qed

lemma staged_mono: "staged b c m \<Longrightarrow> a \<le> b \<Longrightarrow> c \<le> d \<Longrightarrow> staged a d m"
  unfolding staged_def by (meson order_trans)

lemma staged_map_err: "staged a b m \<Longrightarrow> staged a b (map_errP g m)"
  by (simp add: staged_def snd_map_errP)

abbreviation only :: "stage \<Rightarrow> event \<Rightarrow> bool" where
  "only a e \<equiv> \<forall>x. stage_of e = Some x \<longrightarrow> x = a"

lemma staged_seq:
  assumes "emits (only a) m" "\<And>x. staged b c (f x)" "a \<le> b" "b \<le> c"
  shows "staged a c (bindP m f)"
  by (rule staged_bind [OF staged_mono [OF staged_emits [OF assms(1)] order_refl assms(3)] assms(2-4)])

lemma staged_seq_map:
  assumes "emits (only a) m" "\<And>x. staged b c (f x)" "a \<le> b" "b \<le> c"
  shows "staged a c (bindP (map_errP g m) f)"
  using assms by (intro staged_seq emits_map_err)

lemma emits_quiet_stage:
  "emits P m \<Longrightarrow> (\<And>e. P e \<Longrightarrow> stage_of e = None) \<Longrightarrow> emits (only a) m"
  by (erule emits_mono) simp

lemmas stage_events = stage_of_def cgroup_event_def is_cmd_lookup_def is_ns_lookup_def

lemma only_lookups [emits_intros]:
  "emits (only a) (move_to p q)" "emits (only a) (Cmd_new c as p hm)"
  "emits (only a) supported_namespaces" "emits (only a) (open_other_namespaces av p)"
  "emits (only a) (ns_open k p)"
  by (rule emits_quiet_stage [OF top.mv_emits] emits_quiet_stage [OF emits_Cmd_new]
      emits_quiet_stage [OF emits_supported] emits_quiet_stage [OF opener.opn_emits]
      emits_quiet_stage [OF emits_ns_open]; auto simp: stage_events split: call.splits)+

lemma only_child_prepare: "emits (only a) (child_prepare opts)"
  unfolding child_prepare_def by (intro emits_intros)

lemma only_idmapped [emits_intros]: "emits (only S_Idmap) (apply_idmapped_mounts u b)"
  unfolding apply_idmapped_mounts_def idmap_line_def idmap_mount_point_def attach_tree_def make_mount_idmapped_def
  by (intro emits_intros) (simp_all add: stage_of_def)

lemma only_timezone [emits_intros]: "emits (only a) (setup_container_timezone r b)"
  unfolding setup_container_timezone_def by (intro emits_intros) (simp_all add: stage_of_def)

lemma only_capture_step [emits_intros]: "emits (only a) (capture_step d e acc)"
  unfolding capture_step_def entry_is_dir_def
  by (intro emits_intros) (auto intro!: emits_intros simp: stage_of_def split: file_type.split prod.split)

lemma only_attach_captured [emits_intros]: "emits (only a) (attach_captured b c)"
  unfolding attach_captured_def create_mount_point_def is_ok_def attach_tree_def
  by (intro emits_intros) (simp_all add: stage_of_def)

lemma only_ns_apply [emits_intros]: "emits (only S_Namespace) (ns_apply ns)"
  by (rule emits_mono [OF emits_ns_apply]) (simp add: stage_of_def)

lemma only_capture [emits_intros]: "emits (only S_Namespace) (capture_and_attach_container_trees r p n b)"
  unfolding capture_and_attach_container_trees_def
  by (intro emits_intros) (simp_all add: stage_of_def)

lemmas stage_le = less_eq_stage_def stage_rank_def

lemma staged_call: "(\<And>r. only a (c, r)) \<Longrightarrow> emits (only a) (tryP g (call c))"
  by (intro emits_intros)

lemma staged_child_mounts: "staged S_Unshare S_Namespace (child_mounts opts)"
  unfolding child_mounts_def Let_def
  apply (rule staged_seq [where a = S_Unshare and b = S_Unshare], intro emits_intros)
  apply (rule staged_seq [where a = S_Unshare and b = S_Unshare], rule staged_call, simp add: stage_of_def)
  apply (rule staged_seq [where a = S_Unshare and b = S_Unshare], rule staged_call, simp add: stage_of_def)
  apply (rule staged_seq [where a = S_Unshare and b = S_Private], rule staged_call, simp add: stage_of_def)
  apply (rule staged_seq [where a = S_Private and b = S_Idmap], rule staged_call, simp add: stage_of_def)
  apply (rule staged_seq [where a = S_Idmap and b = S_Idmap], intro emits_intros)
  apply (rule staged_seq [where a = S_Idmap and b = S_Idmap], intro emits_intros)
  apply (rule staged_seq [where a = S_Idmap and b = S_Tmpfs], intro emits_intros)
  apply (rule staged_seq [where a = S_Tmpfs and b = S_Tmpfs], rule staged_call, simp add: stage_of_def)
  apply (rule staged_seq [where a = S_Tmpfs and b = S_Namespace], intro emits_intros)
  apply (rule staged_seq [where a = S_Namespace and b = S_Namespace], intro emits_intros)
  apply (rule staged_emits, intro emits_intros)
  by (simp_all add: stage_le)

lemma staged_security: "staged S_Credentials S_Capabilities (apply_security_context ps b)"
  unfolding apply_security_context_def drop_caps_def drop_one_def Let_def
  by (rule staged_seq [where b = S_Capabilities]; (rule staged_emits)?; (intro emits_intros)?)
    (simp_all add: stage_of_def stage_le)

lemma only_pty [emits_intros]:
  "emits (only S_Terminal) stdio_is_tty" "emits (only S_Terminal) open_ptm"
  "emits (only S_Terminal) (attach_pts m)"
  unfolding stdio_is_tty_def isatty_def open_ptm_def attach_pts_def
  by (intro emits_intros; simp add: stage_of_def)+

lemma staged_child_enter: "staged S_Namespace S_Capabilities (child_enter opts nss)"
  unfolding child_enter_def Let_def
  apply (rule staged_seq [where a = S_Namespace and b = S_Terminal], intro emits_intros)
  apply (rule staged_seq [where a = S_Terminal and b = S_Credentials], unfold setup_pty_def, intro emits_intros)
  apply (rule staged_bind [OF staged_map_err [OF staged_security]])
  apply (rule staged_emits, intro emits_intros)
  by (simp_all add: stage_le)

lemma staged_child_finish: "staged S_Ready S_Exec (child_finish opts b c p)"
proof -
  have send: "emits (only S_Ready) (send s ms fs)" for s ms fs
    unfolding send_def by (intro emits_intros) (simp add: stage_of_def)
  have prof: "emits (only S_Exec) (inherit_profile pr)" for pr
    unfolding inherit_profile_def by (intro emits_intros) (simp_all add: stage_of_def)
  have exec: "emits (only S_Exec) (exec_in_overlay cm)" for cm
    unfolding exec_in_overlay_def exec_command_def by (intro emits_intros) (simp add: stage_of_def)
  show ?thesis
    unfolding child_finish_def
    apply (rule staged_seq [where a = S_Ready and b = S_Chdir], intro emits_intros send)
    apply (rule staged_seq [where a = S_Chdir and b = S_Exec], intro emits_intros, simp add: stage_of_def)
    apply (rule staged_emits, intro emits_intros prof exec)
    by (simp_all add: stage_le)
qed

lemma staged_child_run: "staged S_Unshare S_Exec (child_run opts)"
  unfolding child_run_def case_prod_beta Let_def
  by (rule staged_seq [OF only_child_prepare, where b = S_Unshare],
      rule staged_bind [OF staged_child_mounts],
      rule staged_bind [OF staged_child_enter],
      rule staged_mono [OF staged_child_finish])
    (simp_all add: stage_le)

section \<open>Decomposition of a successful child\<close>

lemma child_prepare_Ret:
  assumes "child_prepare o' K h = (Ret (cm, nss), h')"
  shows "\<exists>s. h' = h @ s \<and> subseq (map ns_kind nss) other_kinds \<and>
    command cm = (case co_command o' of Some x \<Rightarrow> x | None \<Rightarrow> (case env_var K ''SHELL'' of Some s \<Rightarrow> s | None \<Rightarrow> ''sh'')) \<and>
    arguments cm = (if co_command o' = None then [''-l''] else co_arguments o') \<and> home cm = effective_home o'"
proof -
  have "emits (\<lambda>_. True) (child_prepare o')"
    using only_child_prepare [of S_Exec] by (rule emits_mono) simp
  from emitsD [OF this assms] obtain s where s: "h' = h @ s" by blast
  from assms obtain h1 h2 av h3 where
    c: "Cmd_new (co_command o') (co_arguments o') (global_pid (process_status o')) (effective_home o') K h1 = (Ret cm, h2)"
    and n: "open_other_namespaces av (global_pid (process_status o')) K h3 = (Ret nss, h')"
    by (auto simp: child_prepare_def prog_inv split: if_splits)
  from Cmd_new_Ret [OF c] opener.opn_kinds [OF n] s show ?thesis by blast
qed

lemma add_tz_fields [simp]:
  "command (add_tz l c) = command c" "arguments (add_tz l c) = arguments c" "home (add_tz l c) = home c"
  by (auto simp: add_tz_def env_default_def split: option.splits)

definition terminal_event :: "event \<Rightarrow> bool" where
  "terminal_event e = (case fst e of
      Isatty _ \<Rightarrow> True | Openpt \<Rightarrow> True | Grantpt _ \<Rightarrow> True | Unlockpt _ \<Rightarrow> True | Ptsname _ \<Rightarrow> True
    | Setsid \<Rightarrow> True | Open_rw _ \<Rightarrow> True | Tiocsctty _ \<Rightarrow> True | Dup2 _ _ \<Rightarrow> True | _ \<Rightarrow> False)"

lemma child_enter_Ret:
  assumes "child_enter o' nss K h = (Ret pty, h')"
  shows "\<exists>rs tty cred drops. h' = h @ zip (map (\<lambda>ns. Setns (ns_file ns)) nss) rs @ tty @ cred @ drops \<and>
    length rs = length nss \<and> list_all (\<lambda>r. \<exists>n. r = Inr n) rs \<and> list_all terminal_event tty \<and>
    cred_events (process_status o') (has_user_ns nss) cred \<and> drop_events (process_status o') drops"
proof -
  from assms obtain h1 h2 where
    ns: "forP ns_apply nss K h = (Ret (), h1)" and
    tty: "setup_pty K h1 = (Ret pty, h2)" and
    sec: "apply_security_context (process_status o') (has_user_ns nss) K h2 = (Ret (), h')"
    by (auto simp: child_enter_def prog_inv for_map_err has_user_ns_def Let_def split: if_splits)
  from for_apply_Ret [OF ns] obtain rs where rs: "length rs = length nss"
    "list_all (\<lambda>r. \<exists>n. r = Inr n) rs" "h1 = h @ zip (map (\<lambda>ns. Setns (ns_file ns)) nss) rs" by blast
  have "emits terminal_event setup_pty"
    unfolding setup_pty_def stdio_is_tty_def isatty_def open_ptm_def attach_pts_def
    by (intro emits_intros) (simp_all add: terminal_event_def)
  from emitsD [OF this tty] obtain t where t: "h2 = h1 @ t" "list_all terminal_event t" by blast
  from apply_security_context_Ret [OF sec] obtain cred drops where
    c: "h' = h2 @ cred @ drops" "cred_events (process_status o') (has_user_ns nss) cred"
       "drop_events (process_status o') drops" by blast
  show ?thesis
    by (rule exI [of _ rs], rule exI [of _ t], rule exI [of _ cred], rule exI [of _ drops]) (use rs t c in simp)
qed

lemma child_finish_Execed:
  assumes "child_finish o' base cm pty K h = (Execed, h')"
  shows "\<exists>n c prof m. h' = h @ [(Sendmsg (sock_fd (co_socket o')) ''R'' (case pty of Some p \<Rightarrow> [p] | None \<Rightarrow> []), Inr n),
      (Chdir base, c)] @ prof @ [(Execve (command cm) (arguments cm) (k_env K ++ overlay_env K cm), Inr m)] \<and>
    profile_events (map_option (\<lambda>p. (own_path p, label p)) (ps_lsm_profile (process_status o'))) prof"
  using assms
  by (cases pty; cases "ps_lsm_profile (process_status o')")
    (auto simp: child_finish_def prog_inv send_def exec_in_overlay_Execed ready_msg_def inherit_profile_def
      profile_events_def Let_def split: if_splits)

lemma child_run_Execed:
  assumes "child_run o' K h = (Execed, h')"
  shows "\<exists>cm nss h1 h2 base tz pty h3. child_prepare o' K h = (Ret (cm, nss), h1) \<and>
    child_mounts o' K h1 = (Ret (base, tz), h2) \<and> child_enter o' nss K h2 = (Ret pty, h3) \<and>
    child_finish o' base (add_tz tz cm) pty K h3 = (Execed, h')"
proof -
  have p: "child_prepare o' K a \<noteq> (Execed, b)" for a b
    using ends_inD [OF ends_child_prepare [of "{O_ret, O_err, O_hang}"]] by fastforce
  have m: "child_mounts o' K a \<noteq> (Execed, b)" for a b
    using ends_inD [OF ends_child_mounts [of "{O_ret, O_err, O_hang}"]] by fastforce
  have e: "child_enter o' nss K a \<noteq> (Execed, b)" for nss a b
    using ends_inD [OF ends_child_enter [of "{O_ret, O_err, O_panic}"]] by fastforce
  from assms show ?thesis
    by (auto simp: child_run_def prog_inv p m e Let_def)
qed

section \<open>Id-mapped mounts and captured trees\<close>

definition eligible :: "string \<Rightarrow> (io_error + string) list \<Rightarrow> string \<Rightarrow> bool" where
  "eligible base ls mp \<longleftrightarrow> (\<exists>l. Inr l \<in> set ls \<and> 3 \<le> length (split_whitespace l) \<and> split_whitespace l ! 1 = mp \<and>
     split_whitespace l ! 2 \<notin> set skip_fstypes \<and> \<not> path_starts_with mp base)"

text \<open>What the treatment of one mount point does: clone, map, put back, and nothing more after
  a failure.\<close>

definition remount :: "fd \<Rightarrow> string \<Rightarrow> hist \<Rightarrow> bool" where
  "remount u mp s \<longleftrightarrow> (\<exists>r. s = [(Open_tree CWD mp, Inl r)]) \<or>
     (\<exists>t e. s = [(Open_tree CWD mp, Inr t), (Mount_setattr_idmap t u, Inl e)]) \<or>
     (\<exists>t n q. s = [(Open_tree CWD mp, Inr t), (Mount_setattr_idmap t u, Inr n), (Move_mount t mp, q)])"

lemma idmap_mount_point_run:
  "\<exists>s. (idmap_mount_point u mp :: (unit, 'e) prog) K h = (Ret (), h @ s) \<and> remount u mp s"
  by (auto simp: idmap_mount_point_def make_mount_idmapped_def attach_tree_def prog_simps remount_def
      split: sum.splits)

lemma for_idmap_line:
  "\<exists>ss. (forP (idmap_line u base) ls :: (unit, 'e) prog) K h = (Ret (), h @ concat ss) \<and>
     list_all (\<lambda>s. \<exists>mp. eligible base ls mp \<and> remount u mp s) ss"
proof (induction ls arbitrary: h)
  case Nil
  show ?case by (intro exI [of _ "[]"]) (simp add: prog_simps)
next
  case (Cons l ls)
  have weaken: "eligible base ls mp \<Longrightarrow> eligible base (l # ls) mp" for mp
    by (auto simp: eligible_def)
  have "\<exists>s. (idmap_line u base l :: (unit, 'e) prog) K h = (Ret (), h @ concat s) \<and>
      list_all (\<lambda>s. \<exists>mp. eligible base (l # ls) mp \<and> remount u mp s) s"
  proof (cases "\<exists>x. l = Inr x \<and> 3 \<le> length (split_whitespace x) \<and>
      split_whitespace x ! 2 \<notin> set skip_fstypes \<and> \<not> path_starts_with (split_whitespace x ! 1) base")
    case False
    then have "(idmap_line u base l :: (unit, 'e) prog) K h = (Ret (), h @ concat [])"
      by (cases l) (auto simp: idmap_line_def prog_simps Let_def)
    then show ?thesis by (intro exI [of _ "[]"]) simp
  next
    case True
    then obtain x where x: "l = Inr x" "3 \<le> length (split_whitespace x)"
      "split_whitespace x ! 2 \<notin> set skip_fstypes" "\<not> path_starts_with (split_whitespace x ! 1) base" by blast
    obtain s where "(idmap_mount_point u (split_whitespace x ! 1) :: (unit, 'e) prog) K h = (Ret (), h @ s)"
      "remount u (split_whitespace x ! 1) s" using idmap_mount_point_run by blast
    with x show ?thesis
      by (intro exI [of _ "[s]"]) (auto simp: idmap_line_def Let_def eligible_def)
  qed
  then obtain s where s: "(idmap_line u base l :: (unit, 'e) prog) K h = (Ret (), h @ concat s)"
    "list_all (\<lambda>s. \<exists>mp. eligible base (l # ls) mp \<and> remount u mp s) s" by blast
  from Cons [of "h @ concat s"] obtain ss where
    ss: "(forP (idmap_line u base) ls :: (unit, 'e) prog) K (h @ concat s) = (Ret (), (h @ concat s) @ concat ss)"
    "list_all (\<lambda>s. \<exists>mp. eligible base ls mp \<and> remount u mp s) ss" by blast
  have "list_all (\<lambda>s. \<exists>mp. eligible base (l # ls) mp \<and> remount u mp s) ss"
    using ss(2) weaken by (auto simp: list_all_iff)
  with s ss show ?case
    by (intro exI [of _ "s @ ss"]) (simp add: bindP_run)
qed

definition capture_event :: "fd \<Rightarrow> event \<Rightarrow> bool" where
  "capture_event root e \<longleftrightarrow>
     (\<exists>nm. (fst e = Statat root nm \<or> fst e = Open_tree root nm) \<and> nm \<noteq> ''.'' \<and> nm \<noteq> ''..'')"

definition placed :: "fd \<Rightarrow> string \<Rightarrow> hist \<Rightarrow> event \<Rightarrow> bool" where
  "placed root base inside e \<longleftrightarrow> (\<exists>d. fst e = Create_dir_all d) \<or> (\<exists>f. fst e = Create f) \<or>
     (\<exists>t nm. fst e = Move_mount t (path_join base nm) \<and> (Open_tree root nm, Inr t) \<in> set inside)"

lemma capture_step_Ret:
  assumes "(capture_step root e acc :: (_, 'e) prog) K h = (Ret acc', h')" "fst e \<noteq> ''.''" "fst e \<noteq> ''..''"
  shows "\<exists>s. h' = h @ s \<and> list_all (capture_event root) s \<and>
    (\<forall>c \<in> set acc'. c \<in> set acc \<or> (Open_tree root (fst c), Inr (fst (snd c))) \<in> set s)"
proof -
  obtain d h1 where d: "(entry_is_dir root e :: (_, 'e) prog) K h = (Ret d, h1)"
    using assms(1) by (auto simp: capture_step_def prog_inv)
  have "emits (capture_event root) (entry_is_dir root e :: (_, 'e) prog)"
    using assms(2,3) unfolding entry_is_dir_def
    by (auto simp: capture_event_def intro!: emits_intros split: prod.split file_type.split)
  from emitsD [OF this d] obtain s where s: "h1 = h @ s" "list_all (capture_event root) s" by blast
  let ?o = "(Open_tree root (fst e), k_call K h1 (Open_tree root (fst e)))"
  from assms(1) d have "h' = h @ s @ [?o]" "acc' = (case snd ?o of Inr t \<Rightarrow> acc @ [(fst e, t, d)] | Inl _ \<Rightarrow> acc)"
    by (auto simp: capture_step_def prog_simps s)
  moreover have "capture_event root ?o" using assms(2,3) by (simp add: capture_event_def)
  ultimately show ?thesis
    using s by (intro exI [of _ "s @ [?o]"]) (auto split: sum.splits)
qed

lemma fold_capture_Ret:
  "(foldP (capture_step root) es acc :: (_, 'e) prog) K h = (Ret caps, h') \<Longrightarrow>
   \<forall>e \<in> set es. fst e \<noteq> ''.'' \<and> fst e \<noteq> ''..'' \<Longrightarrow>
   \<exists>s. h' = h @ s \<and> list_all (capture_event root) s \<and>
    (\<forall>c \<in> set caps. c \<in> set acc \<or> (Open_tree root (fst c), Inr (fst (snd c))) \<in> set s)"
proof (induction es arbitrary: acc h)
  case Nil
  then show ?case by (simp add: prog_inv)
next
  case (Cons e es)
  from Cons.prems(1) obtain acc1 h1 where
    st: "(capture_step root e acc :: (_, 'e) prog) K h = (Ret acc1, h1)" and
    rest: "(foldP (capture_step root) es acc1 :: (_, 'e) prog) K h1 = (Ret caps, h')"
    by (auto simp: prog_inv)
  from capture_step_Ret [OF st] Cons.prems(2) obtain s where
    s: "h1 = h @ s" "list_all (capture_event root) s"
      "\<forall>c \<in> set acc1. c \<in> set acc \<or> (Open_tree root (fst c), Inr (fst (snd c))) \<in> set s" by auto
  from Cons.IH [OF rest] Cons.prems(2) obtain t where
    t: "h' = h1 @ t" "list_all (capture_event root) t"
      "\<forall>c \<in> set caps. c \<in> set acc1 \<or> (Open_tree root (fst c), Inr (fst (snd c))) \<in> set t" by auto
  have "\<forall>c \<in> set caps. c \<in> set acc \<or> (Open_tree root (fst c), Inr (fst (snd c))) \<in> set (s @ t)"
    using s(3) t(3) by auto
  with s(1,2) t(1,2) show ?case by (intro exI [of _ "s @ t"]) simp
qed

lemma emits_attach_captured:
  assumes "(Open_tree root (fst c), Inr (fst (snd c))) \<in> set inside"
  shows "emits (placed root base inside) (attach_captured base c)"
  using assms
  unfolding attach_captured_def create_mount_point_def is_ok_def attach_tree_def Let_def
  by (cases c) (auto simp: placed_def intro!: emits_intros)

lemma root_entries_names: "e \<in> set (root_entries dir) \<Longrightarrow> fst e \<noteq> ''.'' \<and> fst e \<noteq> ''..''"
  by (auto simp: root_entries_def)

lemma capture_Ret:
  assumes "capture_and_attach_container_trees root p our base K h = (Ret u, h')"
  shows "\<exists>cns n1 n2 inside outside. h' = h @ [(Open_read (ns_path K MOUNT p), Inr cns), (Setns cns, Inr n1),
      (Dir_entries root, Inr 0)] @ inside @ [(Setns (ns_file our), Inr n2)] @ outside \<and>
    list_all (capture_event root) inside \<and> list_all (placed root base inside) outside"
proof -
  from assms obtain cns n1 dir caps h2 n2 where
    b: "h2 = h @ [(Open_read (ns_path K MOUNT p), Inr cns), (Setns cns, Inr n1), (Dir_entries root, Inr 0)]" and
    cap: "(foldP (capture_step root) (root_entries dir) [] :: (_, attach_error) prog) K h2 = (Ret caps, n2)" and
    rest: "bindP (map_errP Attach_Namespace (ns_apply our)) (\<lambda>_. forP (attach_captured base) caps) K n2 = (Ret u, h')"
    by (auto simp: capture_and_attach_container_trees_def prog_inv ns_open_Ret ns_apply_Ret)
  from fold_capture_Ret [OF cap] root_entries_names obtain s where
    s: "n2 = h2 @ s" "list_all (capture_event root) s"
      "\<forall>c \<in> set caps. (Open_tree root (fst c), Inr (fst (snd c))) \<in> set s" by auto
  from rest obtain n where
    a: "(forP (attach_captured base) caps :: (_, attach_error) prog) K (n2 @ [(Setns (ns_file our), Inr n)]) = (Ret u, h')"
    by (auto simp: prog_inv ns_apply_Ret)
  have "emits (placed root base s) (forP (attach_captured base) caps :: (_, attach_error) prog)"
    using s(3) by (intro emits_for emits_attach_captured) simp
  from emitsD [OF this a] obtain t where
    "h' = (n2 @ [(Setns (ns_file our), Inr n)]) @ t" "list_all (placed root base s) t" by blast
  with b s show ?thesis
    by (intro exI [of _ cns] exI [of _ n1] exI [of _ n] exI [of _ s] exI [of _ t]) simp
qed

section \<open>The parent and the helper\<close>

text \<open>No wait in the program reaps the helper, except its \<open>Drop\<close>.\<close>

definition no_reap :: "event \<Rightarrow> bool" where
  "no_reap e = (case fst e of Waitpid p b \<Rightarrow> b | _ \<Rightarrow> True)"

lemma emits_no_reap_mono: "emits P m \<Longrightarrow> (\<And>c r. P (c, r) \<Longrightarrow> (case c of Waitpid p b \<Rightarrow> b | _ \<Rightarrow> True)) \<Longrightarrow> emits no_reap m"
  by (erule emits_mono) (auto simp: no_reap_def)

lemma no_reap_fp_write [emits_intros]: "emits no_reap (fp_write p)"
  unfolding fp_write_def by (intro emits_intros) (simp add: no_reap_def)

lemma no_reap_fp_service [emits_intros]: "emits no_reap (fp_service p)"
  unfolding fp_service_def fp_read_def
  by (cases "fp_state p"; simp; intro emits_intros; simp add: no_reap_def)

lemma no_reap_service [emits_intros]: "emits no_reap (service ps rs)"
  by (induction ps rs rule: service.induct) (auto intro!: emits_intros)

lemma no_reap_parent [emits_intros]: "emits no_reap (parent_run c s)"
  unfolding parent_run_def receive_def receive_step_def wait_for_child_def wait_step_def
    forward_pty_and_wait_def forward_def RawTty_new_def RawTty_drop_def forward_files_def dup_fd_def shovel_def
    shovel_init_def shovel_step_def update_winsize_def get_winsize_def set_winsize_def isatty_def
  by (intro emits_intros) (simp_all add: no_reap_def)

lemma no_reap_child [emits_intros]: "emits no_reap (child_run opts)"
proof -
  have *: "emits no_reap (move_to a b)" "emits no_reap (Cmd_new c as p hm)" "emits no_reap supported_namespaces"
    "emits no_reap (open_other_namespaces av p)" "emits no_reap (ns_open k p)" "emits no_reap (ns_apply ns)"
    "emits no_reap (apply_security_context ps in_ns)" for a b c as p hm av k ns ps in_ns
    by (rule emits_no_reap_mono [OF top.mv_emits] emits_no_reap_mono [OF emits_Cmd_new]
        emits_no_reap_mono [OF emits_supported] emits_no_reap_mono [OF opener.opn_emits]
        emits_no_reap_mono [OF emits_ns_open] emits_no_reap_mono [OF emits_ns_apply]
        emits_no_reap_mono [OF emits_security_context];
        auto simp: cgroup_event_def is_cmd_lookup_def is_ns_lookup_def is_security_event_def split: call.splits)+
  have cap: "emits no_reap (capture_step d e acc :: (_, attach_error) prog)" for d e acc
    unfolding capture_step_def entry_is_dir_def
    by (intro emits_intros) (auto intro!: emits_intros simp: no_reap_def split: file_type.split prod.split)
  have prep: "emits no_reap (child_prepare opts)"
    unfolding child_prepare_def by (intro emits_intros *)
  have mounts: "emits no_reap (child_mounts opts)"
    unfolding child_mounts_def apply_idmapped_mounts_def idmap_line_def idmap_mount_point_def attach_tree_def
      make_mount_idmapped_def setup_container_timezone_def capture_and_attach_container_trees_def
      attach_captured_def create_mount_point_def is_ok_def
    by (intro emits_intros * cap) (simp_all add: no_reap_def)
  have enter: "emits no_reap (child_enter opts nss)" for nss
    unfolding child_enter_def setup_pty_def stdio_is_tty_def isatty_def open_ptm_def attach_pts_def
    by (intro emits_intros *) (simp_all add: no_reap_def)
  have finish: "emits no_reap (child_finish opts b c p)" for b c p
    unfolding child_finish_def send_def inherit_profile_def exec_in_overlay_def exec_command_def
    by (intro emits_intros) (simp_all add: no_reap_def)
  show ?thesis
    unfolding child_run_def by (intro emits_intros prep mounts enter finish)
qed

lemma no_reap_fork [emits_intros]: "emits no_reap (attach_fork opts ps ih)"
  unfolding attach_fork_def socket_pair_def fork_def attach_child_def eprint_def
  by (intro emits_intros) (auto intro!: emits_intros simp: no_reap_def split: fork_result.split)

lemma no_reap_helper [emits_intros]: "emits no_reap (IdmapHelper_new a b c d)"
  unfolding IdmapHelper_new_def helper_parent_def helper_child_def setup_userns_def fork_def eprint_def
    sys_exit_def sleep_forever_def
  by (intro emits_intros) (auto intro!: emits_intros simp: no_reap_def split: fork_result.split)

lemma IdmapHelper_drop_run:
  "\<exists>q w. snd ((IdmapHelper_drop ih :: (unit, 'e) prog) K h) = h @ [(Kill (ih_pid ih) SIGKILL, q), (Waitpid (ih_pid ih) False, w)]"
  by (simp add: IdmapHelper_drop_def prog_simps)

definition before_helper :: "attach_error \<Rightarrow> bool" where
  "before_helper e = (case e of Attach_MountApiUnavailable \<Rightarrow> True | Attach_LookupContainer _ _ \<Rightarrow> True
     | Attach_IdmapHelper _ \<Rightarrow> True | _ \<Rightarrow> False)"

section \<open>An example\<close>

definition sample_attach :: kernel where
  "sample_attach = sample\<lparr>k_call := (\<lambda>h c. case c of Isatty _ \<Rightarrow> Inl EBADF | _ \<Rightarrow> sample_call h c),
     k_dir := (\<lambda>h p. Inr [Inr ''mnt'']), k_link := (\<lambda>h p. Inr ''/''),
     k_entries := (\<lambda>h f. Inr [Inr (''.'', Directory), Inr (''etc'', Directory)]), k_fdall := (\<lambda>h f. Inr ''TZif'')\<rparr>"

definition sample_options :: child_options where
  "sample_options = \<lparr>co_command = Some ''/bin/sh'', co_arguments = [''-i''],
     process_status = \<lparr>global_pid = 7, effective_capabilities = 1, last_cap = 1, ps_uid = 0, ps_gid = 0,
       ps_lsm_profile = None\<rparr>, co_socket = \<lparr>sock_fd = 11\<rparr>, co_userns_fd = None, effective_home = None\<rparr>"

lemmas sample_child_simps = sample_attach_def sample_simps sample_options_def prog_simps Let_def

lemma sample_child_prepare:
  "\<exists>cm h'. child_prepare sample_options sample_attach h = (Ret (cm, []), h')"
proof -
  have "reader_lines ([], None) = []" "utf8_valid ''mnt''" by code_simp+
  then show ?thesis
    by (simp add: child_prepare_def move_to_def create_manager_def choose_manager_def manager_move_to_def
        null_move_to_def Cmd_new_def read_environment_def supported_namespaces_def kind_defs
        open_other_namespaces_def other_kinds_def open_step_def sample_child_simps)
qed

lemma sample_child_mounts:
  "\<exists>tz h'. child_mounts sample_options sample_attach h = (Ret (''/var/lib/cntr'', tz), h')"
  by (simp add: child_mounts_def setup_container_timezone_def capture_and_attach_container_trees_def ns_open_def
      ns_apply_def root_entries_def List.map_filter_def capture_step_def entry_is_dir_def attach_captured_def
      create_mount_point_def is_ok_def attach_tree_def get_base_dir_def env_var_def DEFAULT_CNTR_BASE_DIR_def
      sample_child_simps)

lemma sample_child_enter: "\<exists>h'. child_enter sample_options [] sample_attach h = (Ret None, h')"
  by (simp add: child_enter_def setup_pty_def stdio_is_tty_def isatty_def apply_security_context_def drop_caps_def
      drop_one_run sample_child_simps)

lemma sample_child_finish: "\<exists>h'. child_finish sample_options b cm None sample_attach h = (Execed, h')"
  by (simp add: child_finish_def send_def MAX_FDS_def exec_in_overlay_def exec_command_def sample_child_simps)

lemma sample_child_run: "\<exists>h'. child_run sample_options sample_attach h = (Execed, h')"
proof -
  obtain cm h1 where 1: "child_prepare sample_options sample_attach h = (Ret (cm, []), h1)"
    using sample_child_prepare by blast
  obtain tz h2 where 2: "child_mounts sample_options sample_attach h1 = (Ret (''/var/lib/cntr'', tz), h2)"
    using sample_child_mounts by blast
  obtain h3 where 3: "child_enter sample_options [] sample_attach h2 = (Ret None, h3)"
    using sample_child_enter by blast
  obtain h4 where 4: "child_finish sample_options ''/var/lib/cntr'' (add_tz tz cm) None sample_attach h3 = (Execed, h4)"
    using sample_child_finish by blast
  from 1 2 3 4 show ?thesis by (simp add: child_run_def prog_simps Let_def)
qed

section \<open>Properties\<close>

text \<open>C6: Whatever the kernel answers and however the child ends, its decisive steps are made in
  one order: unshare the mount namespace, make mounts private, id-map, mount the tmpfs,
  enter namespaces, take a terminal, set credentials, drop capabilities, report ready,
  change directory, execute. No step of an earlier kind follows one of a later kind.\<close>

theorem child_stages_in_order:
  "\<exists>s. snd (child_run options K h) = h @ s \<and> sorted (stages s)"
  using staged_child_run [of options] unfolding staged_def by blast



text \<open>C26: Only eligible mounts are id-mapped: when the function returns, its calls after reading
  \<open>/proc/mounts\<close> are one group per treated mount, each for a mount point of a line whose
  file system type is not in the skip list and that is not under the base directory, and a
  mount is put back only after its clone was mapped.\<close>

theorem idmapped_mounts_eligible:
  assumes "apply_idmapped_mounts u base K h = (Ret (), h')"
  shows "\<exists>f ss. h' = h @ [(Open_read ''/proc/mounts'', Inr f)] @ concat ss \<and>
    list_all (\<lambda>s. \<exists>mp. remount u mp s \<and>
      eligible base (reader_lines (k_read K (h @ [(Open_read ''/proc/mounts'', Inr f)]) ''/proc/mounts'')) mp) ss"
proof -
  from assms obtain f where f: "k_call K h (Open_read ''/proc/mounts'') = Inr f"
    by (auto simp: apply_idmapped_mounts_def prog_simps Let_def split: sum.splits)
  let ?h1 = "h @ [(Open_read ''/proc/mounts'', Inr f)]"
  let ?ls = "reader_lines (k_read K ?h1 ''/proc/mounts'')"
  from for_idmap_line [of u base ?ls K ?h1, where 'e = attach_error] obtain ss where
    ss: "(forP (idmap_line u base) ?ls :: (unit, attach_error) prog) K ?h1 = (Ret (), ?h1 @ concat ss)"
    "list_all (\<lambda>s. \<exists>mp. eligible base ?ls mp \<and> remount u mp s) ss" by blast
  from assms f ss(1) have "h' = ?h1 @ concat ss"
    by (auto simp: apply_idmapped_mounts_def prog_simps Let_def split: if_splits)
  with ss(2) show ?thesis
    by (intro exI [of _ f] exI [of _ ss]) (auto simp: list_all_iff)
qed

definition sample_mounts :: kernel where
  "sample_mounts = sample\<lparr>k_read := (\<lambda>h p. (''proc /proc proc rw 0 0'' @ [NL] @ ''/dev/sda1 /home ext4 rw 0 0'' @ [NL], None))\<rparr>"

theorem idmapped_mounts_eligible_witness:
  "\<exists>h' f ss. apply_idmapped_mounts 9 ''/var/lib/cntr'' sample_mounts [] = (Ret (), h') \<and>
     h' = [(Open_read ''/proc/mounts'', Inr f)] @ concat ss \<and> list_all (\<lambda>s. \<exists>mp. remount 9 mp s) ss"
proof -
  have lines: "reader_lines (''proc /proc proc rw 0 0'' @ [NL] @ ''/dev/sda1 /home ext4 rw 0 0'' @ [NL], None) =
      [Inr ''proc /proc proc rw 0 0'', Inr ''/dev/sda1 /home ext4 rw 0 0'']" by code_simp
  have call: "k_call sample_mounts h c = sample_call h c" for h c by (simp add: sample_mounts_def sample_def)
  have read: "k_read sample_mounts h p = (''proc /proc proc rw 0 0'' @ [NL] @ ''/dev/sda1 /home ext4 rw 0 0'' @ [NL], None)"
    for h p by (simp add: sample_mounts_def)
  obtain h' where "apply_idmapped_mounts 9 ''/var/lib/cntr'' sample_mounts [] = (Ret (), h')"
    using for_idmap_line [of 9 "''/var/lib/cntr''" "[Inr ''proc /proc proc rw 0 0'', Inr ''/dev/sda1 /home ext4 rw 0 0'']"
      sample_mounts "[(Open_read ''/proc/mounts'', Inr 0)]", where 'e = attach_error] lines
    by (auto simp: apply_idmapped_mounts_def prog_simps Let_def call sample_call_def read)
  from idmapped_mounts_eligible [OF this] this show ?thesis by (fastforce simp: list_all_iff)
qed

text \<open>C25: The container's trees are captured inside its mount namespace and attached outside:
  the child enters the container's mount namespace, clones there the entries of the root
  (never \<open>.\<close> and \<open>..\<close>) through the descriptor of the root, returns to its own mount
  namespace, and only then creates mount points and attaches, each clone below the base
  directory under the name it was cloned from.\<close>

theorem capture_brackets:
  assumes "capture_and_attach_container_trees root p our base K h = (Ret u, h')"
  shows "\<exists>cns n1 n2 inside outside. h' = h @ [(Open_read (ns_path K MOUNT p), Inr cns), (Setns cns, Inr n1),
      (Dir_entries root, Inr 0)] @ inside @ [(Setns (ns_file our), Inr n2)] @ outside \<and>
    (\<forall>e \<in> set inside. \<exists>nm. (fst e = Statat root nm \<or> fst e = Open_tree root nm) \<and> nm \<noteq> ''.'' \<and> nm \<noteq> ''..'') \<and>
    (\<forall>e \<in> set outside. (\<exists>d. fst e = Create_dir_all d) \<or> (\<exists>f. fst e = Create f) \<or>
      (\<exists>t nm. fst e = Move_mount t (path_join base nm) \<and> (Open_tree root nm, Inr t) \<in> set inside))"
  using capture_Ret [OF assms] by (simp add: list_all_iff capture_event_def placed_def)

theorem capture_brackets_witness:
  "\<exists>h' cns n1 rest. capture_and_attach_container_trees 5 7 \<lparr>ns_kind = MOUNT, ns_file = 3\<rparr> ''/b'' sample_attach [] = (Ret (), h') \<and>
     h' = (Open_read (ns_path sample_attach MOUNT 7), Inr cns) # (Setns cns, Inr n1) # rest"
proof -
  obtain h' where run: "capture_and_attach_container_trees 5 7 \<lparr>ns_kind = MOUNT, ns_file = 3\<rparr> ''/b'' sample_attach [] = (Ret (), h')"
    by (simp add: capture_and_attach_container_trees_def ns_open_def ns_apply_def root_entries_def
        List.map_filter_def capture_step_def entry_is_dir_def attach_captured_def create_mount_point_def is_ok_def
        attach_tree_def sample_child_simps)
  from capture_brackets [OF run] run show ?thesis by auto
qed

text \<open>The parent waits for the child only after the child's ready message: when the parent
  ends the program with a status, it had received (after interrupted attempts only) a
  message that begins with the ready message, and without a descriptor in it the status is
  the one that the wait for the child gave.\<close>

theorem parent_waits_after_ready:
  assumes "parent_run child sock K h = (Exit n, h')"
  shows "\<exists>t msg cmsgs rest. list_all (is_retry (sock_fd sock) 1) t \<and>
    k_recv K (h @ t) (sock_fd sock) 1 = Inr (msg, cmsgs) \<and> take 1 msg = ready_msg \<and>
    h' = h @ t @ [(Recvmsg (sock_fd sock) 1, Inr 0)] @ rest \<and>
    (concat cmsgs = [] \<longrightarrow>
       wait_for_child child K (h @ t @ [(Recvmsg (sock_fd sock) 1, Inr 0)]) = (Exit n, h'))"
proof -
  have "receive sock 1 K a \<noteq> (Exit m, b)" for a b m
    using ends_inD [OF ends_receive [of "{O_ret, O_err, O_hang}"]] by fastforce
  with assms obtain msg fds h1 where rc: "receive sock 1 K h = (Ret (msg, fds), h1)"
    and ok: "msg \<noteq> []" "msg ! 0 = CHR ''R''"
    and rest: "(case fds of [] \<Rightarrow> map_errP Attach_Pty (wait_for_child child)
      | pty_fd # _ \<Rightarrow> map_errP Attach_Pty (forward_pty_and_wait pty_fd child)) K h1 = (Exit n, h')"
    by (auto simp: parent_run_def prog_inv split: if_splits)
  from receive_Ret [OF rc] obtain t cmsgs where
    t: "list_all (is_retry (sock_fd sock) 1) t" "h1 = h @ t @ [(Recvmsg (sock_fd sock) 1, Inr 0)]"
       "k_recv K (h @ t) (sock_fd sock) 1 = Inr (msg, cmsgs)" "fds = concat cmsgs" by blast
  have "emits (\<lambda>_. True) (case fds of [] \<Rightarrow> map_errP Attach_Pty (wait_for_child child)
      | pty_fd # _ \<Rightarrow> map_errP Attach_Pty (forward_pty_and_wait pty_fd child))"
    unfolding wait_for_child_def wait_step_def forward_pty_and_wait_def forward_def RawTty_new_def RawTty_drop_def
      isatty_def
    by (intro emits_intros emits_mono [OF emits_forward_files]) simp_all
  from emitsD [OF this rest] obtain s where "h' = h1 @ s" by blast
  moreover have "take 1 msg = ready_msg" using ok by (cases msg) (auto simp: ready_msg_def)
  moreover have "wait_for_child child K h1 = (Exit n, h')" if "fds = []"
    using rest that by (simp add: prog_inv)
  ultimately show ?thesis using t by (intro exI [of _ t] exI [of _ msg] exI [of _ cmsgs] exI [of _ s]) simp
qed

theorem parent_waits_after_ready_witness:
  "\<exists>t msg cmsgs. k_recv (sample\<lparr>k_recv := (\<lambda>h f n. Inr (''R'', [])),
       k_wait := (\<lambda>h p. Inr (Some \<lparr>stopped = False, terminating_signal = None, exit_status = Some 3\<rparr>))\<rparr>) t 10 1
     = Inr (msg, cmsgs) \<and> take 1 msg = ready_msg"
proof -
  let ?K = "sample\<lparr>k_recv := (\<lambda>h f n. Inr (''R'', [])),
       k_wait := (\<lambda>h p. Inr (Some \<lparr>stopped = False, terminating_signal = None, exit_status = Some 3\<rparr>))\<rparr>"
  have r: "receive \<lparr>sock_fd = 10\<rparr> 1 ?K [] = (Ret (''R'', []), [(Recvmsg 10 1, Inr 0)])"
    using receive_now [of ?K "[]" "\<lparr>sock_fd = 10\<rparr>" 1 "''R''" "[]"] by simp
  obtain h' where w: "wait_for_child 7 ?K [(Recvmsg 10 1, Inr 0)] = (Exit 3, h')"
    by (simp add: wait_for_child_def loopP_unfold wait_step_run wait_end_def Let_def)
  have "parent_run 7 \<lparr>sock_fd = 10\<rparr> ?K [] = (Exit 3, h')"
    using r w by (simp add: parent_run_def prog_simps)
  from parent_waits_after_ready [OF this] show ?thesis by auto
qed

lemma attach_helper_scope:
  assumes "attach opts K h = (Err e, h')" "ao_effective_user opts = Some u" "\<not> before_helper e"
  shows "\<exists>ps ih h1. finallyP (attach_fork opts ps (Some ih)) (IdmapHelper_drop ih) K h1 = (Err e, h')"
proof -
  have api: "has_mount_api None K a \<noteq> (Err f, b)" for f :: attach_error and a b
    using ends_inD [OF ends_has_mount_api [of "{O_ret}"]] by fastforce
  from assms show ?thesis
    by (auto simp: attach_def prog_inv api before_helper_def split: if_splits)
qed

lemma no_reap_api [emits_intros]: "emits no_reap (has_mount_api c)"
  unfolding has_mount_api_def probe_mount_api_def by (intro emits_intros) (simp_all add: no_reap_def)

lemma no_reap_lookup [emits_intros]: "emits no_reap (lookup_container c ts m)"
  by (rule emits_no_reap_mono [OF emits_lookup_container])
    (auto simp: is_read_only_def is_lookup_event_def split: call.splits)

lemma attach_Exit_no_reap:
  assumes "attach opts K h = (Exit n, h')"
  shows "\<exists>s. h' = h @ s \<and> list_all no_reap s"
proof -
  have api: "has_mount_api None K a \<noteq> (Exit m, b)" for m a b
    using ends_inD [OF ends_has_mount_api [of "{O_ret}"]] by fastforce
  have look: "lookup_container c ts m K a \<noteq> (Exit k, b)" for c ts m k a b
    using ends_inD [OF plain_lookup_container [of "{O_ret, O_err}"]] by fastforce
  define R where "R = (\<lambda>ps. case ao_effective_user opts of
       None \<Rightarrow> attach_fork opts ps None
     | Some user \<Rightarrow>
         bindP (askP (\<lambda>K h. (k_uid K h, k_gid K h))) (\<lambda>(current_uid, current_gid).
         bindP (map_errP Attach_IdmapHelper
                  (IdmapHelper_new (user_uid user) current_uid (user_gid user) current_gid)) (\<lambda>helper.
         finallyP (attach_fork opts ps (Some helper)) (IdmapHelper_drop helper))))"
  have eq: "attach opts = bindP (has_mount_api None) (\<lambda>(available, _). if \<not> available then throwP Attach_MountApiUnavailable else
     bindP (map_errP (Attach_LookupContainer (ao_container_name opts))
              (lookup_container (ao_container_name opts) (ao_container_types opts) (ao_apparmor_mode opts))) R)"
    unfolding attach_def R_def by (rule refl)
  from assms obtain c h1 ps h2 where
    a: "(has_mount_api None :: (_, attach_error) prog) K h = (Ret (True, c), h1)" and
    l: "lookup_container (ao_container_name opts) (ao_container_types opts) (ao_apparmor_mode opts) K h1 = (Ret ps, h2)" and
    r: "R ps K h2 = (Exit n, h')"
    by (auto simp: eq prog_inv api look split: if_splits)
  from emitsD [OF no_reap_api a] emitsD [OF no_reap_lookup l] obtain s1 s2 where
    s: "h2 = h @ s1 @ s2" "list_all no_reap s1" "list_all no_reap s2" by auto
  have "\<exists>t. h' = h2 @ t \<and> list_all no_reap t"
  proof (cases "ao_effective_user opts")
    case None
    with r emitsD [OF no_reap_fork] show ?thesis by (auto simp: R_def)
  next
    case (Some u)
    with r consider
      "IdmapHelper_new (user_uid u) (k_uid K h2) (user_gid u) (k_gid K h2) K h2 = (Exit n, h')"
      | ih h3 where "IdmapHelper_new (user_uid u) (k_uid K h2) (user_gid u) (k_gid K h2) K h2 = (Ret ih, h3)"
        "attach_fork opts ps (Some ih) K h3 = (Exit n, h')"
      by (auto simp: R_def prog_inv)
    then show ?thesis
    proof cases
      case 1
      from emitsD [OF no_reap_helper this] show ?thesis .
    next
      case 2
      from emitsD [OF no_reap_helper 2(1)] emitsD [OF no_reap_fork 2(2)] show ?thesis by auto
    qed
  qed
  with s show ?thesis by auto
qed

section \<open>Attaching on the sample host\<close>

definition sample_user :: user where
  "sample_user = \<lparr>user_uid = 1000, user_gid = 1000, user_dir = ''/home/u''\<rparr>"

definition sample_attach_options :: attach_options where
  "sample_attach_options = \<lparr>ao_command = None, ao_arguments = [], ao_container_name = ''c'', ao_container_types = [],
     ao_effective_user = Some sample_user, ao_apparmor_mode = Off\<rparr>"

lemma sample_attach_parent:
  "\<exists>ih h1. attach sample_attach_options (sample_host rc wt) [] =
     finallyP (parent_run 8 \<lparr>sock_fd = 10\<rparr>) (IdmapHelper_drop ih) (sample_host rc wt) h1"
proof -
  let ?K = "sample_host rc wt"
  obtain ps h1 where l: "lookup_container ''c'' [] Off ?K [(Fsopen ''__cntr_probe__'', Inr 0)] = (Ret ps, h1)"
    using sample_lookup by blast
  obtain ih h2 where n: "IdmapHelper_new 1000 (k_uid ?K h1) 1000 (k_gid ?K h1) ?K h1 = (Ret ih, h2)"
    by (simp add: IdmapHelper_new_def helper_parent_def prog_simps Let_def)
  obtain h3 where f: "attach_fork sample_attach_options ps (Some ih) ?K h2 = parent_run 8 \<lparr>sock_fd = 10\<rparr> ?K h3"
    by (simp add: attach_fork_def socket_pair_def prog_simps)
  have "attach sample_attach_options ?K [] = finallyP (parent_run 8 \<lparr>sock_fd = 10\<rparr>) (IdmapHelper_drop ih) ?K h3"
    by (simp add: attach_def has_mount_api_def sample_attach_options_def sample_user_def prog_simps l n
        f [unfolded sample_attach_options_def sample_user_def])
  then show ?thesis by blast
qed






end
