(* ===== verification/Exec.thy ===== *)
theory Exec
  imports Idmap_Helper Container
begin

text \<open>
  \<open>exec/mod.rs\<close>: run a command in the container's own file system. The parent forwards the
  terminal and waits, the child enters the container and becomes the command.
\<close>

section \<open>Model\<close>

datatype exec_error =
    Exec_MountApiUnavailable
  | Exec_LookupContainer string container_error
  | Exec_Fork io_error
  | Exec_Pty pty_error
  | Exec_Cmd cmd_error
  | Exec_Setup setup_error

definition exec_chain :: "kernel \<Rightarrow> exec_error \<Rightarrow> string list" where
  "exec_chain K e = (case e of
      Exec_MountApiUnavailable \<Rightarrow>
        [''Linux mount API is not available. cntr requires kernel 6.8+ with mount API support.'' @ [NL]
         @ ''Please upgrade your kernel or use an older version of cntr with FUSE support.'']
    | Exec_LookupContainer c s \<Rightarrow> (''failed to lookup container '' @ quoted c) # container_chain K s
    | Exec_Fork s \<Rightarrow> [''failed to fork'', k_strerror K s]
    | Exec_Pty s \<Rightarrow> pty_chain K s
    | Exec_Cmd s \<Rightarrow> cmd_chain K s
    | Exec_Setup s \<Rightarrow> ''failed to enter container'' # setup_chain K s)"

interpretation exec_err: error_type exec_chain
  by unfold_locales (simp add: exec_chain_def pty_err.chain_nonempty cmd_err.chain_nonempty
      split: exec_error.split)

record exec_options =
  eo_command :: "string option"
  eo_arguments :: "string list"
  eo_container_name :: string
  eo_container_types :: "nat list"
  eo_apparmor_mode :: ApparmorMode

definition exec_child :: "proc_status \<Rightarrow> string option \<Rightarrow> string list \<Rightarrow> fd option \<Rightarrow> (unit, exec_error) prog" where
  "exec_child process_status exe args pty_master =
     bindP (case pty_master of
         Some pty_master \<Rightarrow> map_errP Exec_Pty (attach_pts pty_master)
       | None \<Rightarrow> retP ()) (\<lambda>_.
     let exe' = (case exe of Some e \<Rightarrow> Some e | None \<Rightarrow> Some ''/bin/sh'') in
     bindP (map_errP Exec_Cmd (Cmd_new exe' args (global_pid process_status) None)) (\<lambda>cmd.
     bindP (map_errP Exec_Setup (enter_container process_status)) (\<lambda>_.
     let lsm_profile = map_option (\<lambda>p. (own_path p, label p)) (ps_lsm_profile process_status) in
     map_errP Exec_Cmd (exec_in_container cmd lsm_profile))))"

text \<open>The child's branch after the fork; \<open>exec_child\<close> does not return a value.\<close>

definition exec_forked :: "proc_status \<Rightarrow> exec_options \<Rightarrow> fd option \<Rightarrow> (unit, exec_error) prog" where
  "exec_forked process_status opts pty_master =
     bindP (attemptP (exec_child process_status (eo_command opts) (eo_arguments opts) pty_master)) (\<lambda>r. case r of
         Inl e \<Rightarrow>
           bindP (askP (\<lambda>K h. format_chain (exec_chain K e))) (\<lambda>msg.
           bindP (eprint (''exec child failed: '' @ msg)) (\<lambda>_. exitP 1))
       | Inr _ \<Rightarrow> panicP)"

definition exec :: "exec_options \<Rightarrow> (unit, exec_error) prog" where
  "exec opts =
     bindP (has_mount_api None) (\<lambda>(available, _).
     if \<not> available then throwP Exec_MountApiUnavailable else
     bindP (map_errP (Exec_LookupContainer (eo_container_name opts))
              (lookup_container (eo_container_name opts) (eo_container_types opts) (eo_apparmor_mode opts)))
       (\<lambda>process_status.
     bindP stdio_is_tty (\<lambda>is_tty.
     bindP (if is_tty then bindP (map_errP Exec_Pty open_ptm) (\<lambda>m. retP (Some m)) else retP None) (\<lambda>pty_master.
     bindP (map_errP Exec_Fork fork) (\<lambda>f. case f of
         ParentOf child \<Rightarrow> (case pty_master of
             Some pty_master \<Rightarrow> map_errP Exec_Pty (forward_pty_and_wait pty_master child)
           | None \<Rightarrow> map_errP Exec_Pty (wait_for_child child))
       | Fork_Child \<Rightarrow> exec_forked process_status opts pty_master)))))"

section \<open>How the processes end\<close>

lemma ends_enter_container [outcome_intros]:
  "{O_ret, O_err, O_panic} \<subseteq> S \<Longrightarrow> ends_in S (enter_container ps)"
  unfolding enter_container_def enter_namespaces_def setup_step_def Let_def
  by (intro outcome_intros ends_in_mono [OF top.mv_plain]) auto

lemma ends_exec_child [outcome_intros]:
  "{O_err, O_exec, O_panic, O_hang} \<subseteq> S \<Longrightarrow> ends_in S (exec_child ps exe args pty)"
  unfolding exec_child_def Let_def by (intro outcome_intros) auto

lemma ends_exec_forked [outcome_intros]:
  "{O_exit, O_exec, O_panic, O_hang} \<subseteq> S \<Longrightarrow> ends_in S (exec_forked ps opts pty)"
  unfolding exec_forked_def by (intro outcome_intros) auto

lemma ends_exec_program [outcome_intros]:
  "{O_err, O_exit, O_exec, O_panic, O_hang} \<subseteq> S \<Longrightarrow> ends_in S (exec opts)"
  unfolding exec_def by (intro outcome_intros) (auto intro!: outcome_intros split: fork_result.split)

section \<open>The child\<close>

definition takes_terminal :: "event \<Rightarrow> bool" where
  "takes_terminal e = (case fst e of
      Ptsname _ \<Rightarrow> True | Setsid \<Rightarrow> True | Open_rw _ \<Rightarrow> True | Tiocsctty _ \<Rightarrow> True | Dup2 _ _ \<Rightarrow> True | _ \<Rightarrow> False)"

lemma emits_attach_pts: "emits takes_terminal (attach_pts m)"
  unfolding attach_pts_def by (intro emits_intros) (simp_all add: takes_terminal_def)

text \<open>The three stretches before the command: terminal, command, container.\<close>

lemma exec_child_Execed:
  assumes "exec_child ps exe args pty K h = (Execed, h')"
  shows "\<exists>tty cm look h1 h2. h1 = h @ tty @ look \<and> (pty = None \<longrightarrow> tty = []) \<and> list_all takes_terminal tty \<and>
    list_all is_cmd_lookup look \<and>
    Cmd_new (Some (case exe of Some e \<Rightarrow> e | None \<Rightarrow> ''/bin/sh'')) args (global_pid ps) None K (h @ tty) = (Ret cm, h1) \<and>
    enter_container ps K h1 = (Ret (), h2) \<and>
    exec_in_container cm (map_option (\<lambda>p. (own_path p, label p)) (ps_lsm_profile ps)) K h2 = (Execed, h')"
proof -
  let ?m = "case pty of Some m \<Rightarrow> map_errP Exec_Pty (attach_pts m) | None \<Rightarrow> retP ()"
  let ?exe = "Some (case exe of Some e \<Rightarrow> e | None \<Rightarrow> ''/bin/sh'')"
  have exe: "(case exe of Some e \<Rightarrow> Some e | None \<Rightarrow> Some ''/bin/sh'') = ?exe" by (cases exe) auto
  have "?m K a \<noteq> (Execed, b)" for a b
    by (cases pty) (auto simp: prog_inv dest: ends_inD [OF ends_attach_pts [of "{O_ret, O_err}"], rotated])
  moreover have "Cmd_new c as p hm K a \<noteq> (Execed, b)" for c as p hm a b
    using ends_inD [OF ends_Cmd_new [of "{O_ret, O_err, O_hang}"]] by fastforce
  moreover have "enter_container ps K a \<noteq> (Execed, b)" for a b
    using ends_inD [OF ends_enter_container [of "{O_ret, O_err, O_panic}"]] by fastforce
  ultimately obtain h0 h1 h2 cm where
    t: "?m K h = (Ret (), h0)" and
    c: "Cmd_new ?exe args (global_pid ps) None K h0 = (Ret cm, h1)" and
    e: "enter_container ps K h1 = (Ret (), h2)" and
    x: "exec_in_container cm (map_option (\<lambda>p. (own_path p, label p)) (ps_lsm_profile ps)) K h2 = (Execed, h')"
    using assms by (auto simp: exec_child_def exe prog_inv Let_def)
  have "emits takes_terminal ?m" by (intro emits_intros emits_attach_pts)
  from emitsD [OF this t] obtain tty where tty: "h0 = h @ tty" "list_all takes_terminal tty" by blast
  from emitsD [OF emits_Cmd_new c] obtain look where look: "h1 = h0 @ look" "list_all is_cmd_lookup look" by blast
  have "pty = None \<longrightarrow> tty = []" using t tty by (auto simp: prog_simps)
  then show ?thesis using tty look c e x
    by (intro exI [of _ tty] exI [of _ cm] exI [of _ look] exI [of _ h1] exI [of _ h2]) simp
qed


lemma Cmd_new_root:
  "Cmd_new c args p hm K h = (Ret cm, h') \<Longrightarrow>
   \<exists>i. k_link K i (''/proc/'' @ show_int p @ ''/root'') = Inr (container_root cm)"
  by (auto simp: Cmd_new_def read_link_def prog_inv Let_def)


definition sample_exec :: kernel where
  "sample_exec = sample\<lparr>k_dir := (\<lambda>h p. Inr [Inr ''mnt'']), k_link := (\<lambda>h p. Inr ''/'')\<rparr>"

lemmas sample_exec_simps = sample_exec_def sample_simps prog_simps Let_def


lemma exec_forked_Exit:
  assumes "exec_forked ps opts pty K h = (Exit n, h')"
  shows "n = 1 \<and> (\<exists>h1 msg q. h' = h1 @ [(Eprint (''exec child failed: '' @ msg), q)])"
proof -
  have child: "exec_child ps c as pty K a \<noteq> (Exit k, b)" for ps c as pty k a b
    using ends_inD [OF ends_exec_child [of "{O_err, O_exec, O_panic, O_hang}"]] by fastforce
  let ?run = "exec_child ps (eo_command opts) (eo_arguments opts) pty"
  show ?thesis
  proof (cases "fst (?run K h)")
    case (Err e)
    then obtain h1 where "?run K h = (Err e, h1)" by (cases "?run K h") auto
    with assms show ?thesis by (auto simp: exec_forked_def prog_simps)
  next
    case (Exit k)
    then show ?thesis using child by (metis prod.collapse)
  qed (use assms in \<open>auto simp: exec_forked_def prog_simps split: prod.splits\<close>)
qed

text \<open>C24: The exit status of exec: the program exits either as the forked child, after it has
  reported its error, with 1, or as its parent, with the status that the wait for that child
  gives; whatever happened while the terminal was forwarded makes no difference to it.\<close>

theorem exec_exit_status:
  assumes "exec opts K h = (Exit n, h')"
  shows "\<exists>h0 c. k_call K h0 Fork = Inr c \<and>
    (if c = 0 then n = 1 \<and> (\<exists>h1 msg q. h' = h1 @ [(Eprint (''exec child failed: '' @ msg), q)])
     else \<exists>h1. wait_for_child (int c) K h1 = (Exit n, h'))"
proof -
  have look: "lookup_container c ts m K a \<noteq> (Exit k, b)" for c ts m k a b
    using ends_inD [OF plain_lookup_container [of "{O_ret, O_err}"]] by fastforce
  have api: "(has_mount_api None :: (bool \<times> bool option, exec_error) prog) K a \<noteq> (Exit k, b)" for k a b
    using ends_inD [OF ends_has_mount_api [of "{O_ret}"]] by fastforce
  have tty: "(stdio_is_tty :: (bool, exec_error) prog) K a \<noteq> (Exit k, b)" for k a b
    using ends_inD [OF ends_stdio_is_tty [of "{O_ret}"]] by fastforce
  have ptm: "open_ptm K a \<noteq> (Exit k, b)" for k a b
    using ends_inD [OF ends_open_ptm [of "{O_ret, O_err}"]] by fastforce
  have fork: "fork K a \<noteq> (Exit k, b)" for k a b
    using ends_inD [OF ends_fork [of "{O_ret, O_err}"]] by fastforce
  have fwd: "forward p K a \<noteq> (Exit k, b)" for p k a b
    using ends_inD [OF ends_forward [of "{O_ret, O_err, O_panic, O_hang}"]] by fastforce
  from assms obtain h0 f h1 ps pty where
    f: "fork K h0 = (Ret f, h1)" and
    r: "(case f of ParentOf child \<Rightarrow> (case pty of
             Some pty_master \<Rightarrow> map_errP Exec_Pty (forward_pty_and_wait pty_master child)
           | None \<Rightarrow> map_errP Exec_Pty (wait_for_child child))
       | Fork_Child \<Rightarrow> exec_forked ps opts pty) K h1 = (Exit n, h')"
    by (auto simp: exec_def prog_inv look api tty ptm fork split: if_splits)
  from f obtain c where c: "k_call K h0 Fork = Inr c" "f = (if c = 0 then Fork_Child else ParentOf (int c))"
    by (auto simp: fork_Ret)
  show ?thesis
  proof (cases "c = 0")
    case True
    with r c have "exec_forked ps opts pty K h1 = (Exit n, h')" by simp
    from exec_forked_Exit [OF this] have "n = 1 \<and> (\<exists>h1 msg q. h' = h1 @ [(Eprint (''exec child failed: '' @ msg), q)])" .
    with c True show ?thesis by auto
  next
    case False
    with r c have "\<exists>h1. wait_for_child (int c) K h1 = (Exit n, h')"
      by (auto simp: forward_pty_and_wait_def prog_inv fwd split: option.splits)
    with c(1) False show ?thesis by (intro exI [of _ h0] exI [of _ c]) simp
  qed
qed


lemma sample_exec_wait:
  "\<exists>h1. exec \<lparr>eo_command = None, eo_arguments = [], eo_container_name = ''c'', eo_container_types = [], eo_apparmor_mode = Off\<rparr>
     (sample_host rc wt) [] = map_errP Exec_Pty (wait_for_child 8) (sample_host rc wt) h1"
proof -
  let ?K = "sample_host rc wt"
  obtain ps h1 where l: "lookup_container ''c'' [] Off ?K [(Fsopen ''__cntr_probe__'', Inr 0)] = (Ret ps, h1)"
    using sample_lookup by blast
  have tty: "k_call ?K a (Isatty f) = Inr 0" "k_call ?K a Openpt = Inr 0" "k_call ?K a (Grantpt f) = Inr 0"
    "k_call ?K a (Unlockpt f) = Inr 0" "k_termios ?K a f = Inl EBADF" for a f
    by (simp_all add: sample_host_def sample_simps)
  have fwd: "\<exists>h2. forward_pty_and_wait 0 8 ?K a = wait_for_child 8 ?K h2" for a
    by (simp add: forward_pty_and_wait_def forward_def isatty_def RawTty_new_def prog_simps tty) (rule exI, rule refl)
  obtain a where "exec \<lparr>eo_command = None, eo_arguments = [], eo_container_name = ''c'', eo_container_types = [], eo_apparmor_mode = Off\<rparr>
     ?K [] = map_errP Exec_Pty (forward_pty_and_wait 0 8) ?K a"
    by (simp add: exec_def has_mount_api_def prog_simps l stdio_is_tty_def isatty_def open_ptm_def tty)
  moreover from fwd obtain h2 where "forward_pty_and_wait 0 8 ?K a = wait_for_child 8 ?K h2" by blast
  ultimately show ?thesis by (intro exI [of _ h2]) (simp add: map_errP_run)
qed

theorem exec_exit_status_witness:
  "\<exists>h' h1 c. exec \<lparr>eo_command = None, eo_arguments = [], eo_container_name = ''c'', eo_container_types = [], eo_apparmor_mode = Off\<rparr>
       (sample_host (Inl EBADF) (Inr (Some \<lparr>stopped = False, terminating_signal = None, exit_status = Some 3\<rparr>))) [] = (Exit 3, h') \<and>
     wait_for_child (int c) (sample_host (Inl EBADF) (Inr (Some \<lparr>stopped = False, terminating_signal = None, exit_status = Some 3\<rparr>))) h1 = (Exit 3, h')"
proof -
  let ?K = "sample_host (Inl EBADF) (Inr (Some \<lparr>stopped = False, terminating_signal = None, exit_status = Some 3\<rparr>))"
  have "\<exists>h2. wait_for_child 8 ?K a = (Exit 3, h2)" for a
    by (simp add: wait_for_child_def loopP_unfold wait_step_run wait_end_def Let_def)
  with sample_exec_wait obtain h' where
    run: "exec \<lparr>eo_command = None, eo_arguments = [], eo_container_name = ''c'', eo_container_types = [], eo_apparmor_mode = Off\<rparr> ?K [] = (Exit 3, h')"
    by (metis map_errP_inv(4))
  from exec_exit_status [OF run] obtain h0 c where
    "if c = 0 then (3 :: int) = 1 \<and> (\<exists>h1 msg q. h' = h1 @ [(Eprint (''exec child failed: '' @ msg), q)])
     else \<exists>h1. wait_for_child (int c) ?K h1 = (Exit 3, h')" by blast
  then have "\<exists>h1. wait_for_child (int c) ?K h1 = (Exit 3, h')" by (cases "c = 0") simp_all
  then obtain h1 where "wait_for_child (int c) ?K h1 = (Exit 3, h')" ..
  with run show ?thesis by blast
qed

end
