(* ===== verification/Cli.thy ===== *)
theory Cli
  imports Attach Exec
begin

text \<open>
  \<open>cli.rs\<close> and \<open>bin/main.rs\<close>: the command line. The two argument loops consume the list of
  arguments from the left; they end with the options, with a printed text (\<open>None\<close>), or with
  an error message.
\<close>

section \<open>Values\<close>

definition VERSION :: string where "VERSION = ''2.1.0''"
definition AUTHORS :: string where "AUTHORS = ''J'' @ [CHR 0xC3, CHR 0xB6] @ ''rg Thalheim <joerg@thalheim.io>''"

datatype exit_code = SUCCESS | FAILURE

definition exit_status_of :: "exit_code \<Rightarrow> int" where
  "exit_status_of c = (case c of SUCCESS \<Rightarrow> 0 | FAILURE \<Rightarrow> 1)"

fun sort_types :: "(string \<Rightarrow> nat option) \<Rightarrow> string list \<Rightarrow> nat list \<times> string list" where
  "sort_types known [] = ([], [])"
| "sort_types known (token # ts) =
     (let trimmed = trim token; (valid_types, unknown_names) = sort_types known ts in
      case known trimmed of
        Some container_type \<Rightarrow> (container_type # valid_types, unknown_names)
      | None \<Rightarrow> (valid_types, trimmed # unknown_names))"

definition parse_container_types :: "(string \<Rightarrow> nat option) \<Rightarrow> string \<Rightarrow> string + nat list" where
  "parse_container_types known s =
     (let (valid_types, unknown_names) = sort_types known (split_on (CHR '','') s) in
      if unknown_names \<noteq> [] then Inl (''unknown container type(s): '' @ join_with '', '' unknown_names)
      else Inr valid_types)"

text \<open>\<open>to_lowercase\<close>: no character outside ASCII has a lower case that spells \<open>auto\<close> or \<open>off\<close>,
  so lowering the ASCII letters decides the same.\<close>

definition ascii_lower :: "char \<Rightarrow> char" where
  "ascii_lower c = (let x = code c in if 65 \<le> x \<and> x \<le> 90 then char_of (x + 32) else c)"

definition parse_apparmor_mode :: "string \<Rightarrow> string + ApparmorMode" where
  "parse_apparmor_mode s =
     (let l = List.map ascii_lower s in
      if l = ''auto'' then Inr Auto
      else if l = ''off'' then Inr Off
      else Inl (''invalid apparmor mode '' @ quoted s @ '', expected '' @ quoted ''auto'' @ '' or '' @ quoted ''off''))"

section \<open>Printed texts\<close>

definition eprint_lines :: "string list \<Rightarrow> (unit, 'e) prog" where
  "eprint_lines ls = forP eprint ls"

definition attach_help_lines :: "string list" where
  "attach_help_lines =
    [''cntr-attach '' @ VERSION,
     ''by '' @ AUTHORS,
     '''',
     ''USAGE:'',
     ''    cntr attach [OPTIONS] <CONTAINER_ID> [-- <COMMAND>...]'',
     '''',
     ''ARGS:'',
     ''    <CONTAINER_ID>    Container ID, name, or process ID'',
     '''',
     ''OPTIONS:'',
     ''    -t, --type <TYPES>           Container types to try (comma-separated)'',
     ''                                 [possible: process_id,podman,docker,nspawn,lxc,lxd,containerd,command,kubernetes]'',
     ''                                 [default: all but command]'',
     ''    --effective-user <USER>      Effective user for new files on host'',
     ''                                 (username or numeric uid[:gid])'',
     ''    --apparmor <MODE>            AppArmor profile mode'',
     ''                                 [possible: auto, off]'',
     ''                                 [default: auto]'',
     ''    -h, --help                   Print help'',
     ''    -V, --version                Print version'',
     '''',
     ''COMMAND:'',
     ''    Command and arguments to execute [default: $SHELL]'',
     ''    Use '' @ quoted ''--'' @ '' to separate command from options'']"

definition exec_help_lines :: "string list" where
  "exec_help_lines =
    [''cntr-exec '' @ VERSION,
     ''by '' @ AUTHORS,
     '''',
     ''USAGE:'',
     ''    cntr exec [OPTIONS] <CONTAINER_ID> [-- <COMMAND>...]'',
     '''',
     ''ARGS:'',
     ''    <CONTAINER_ID>    Container ID, name, or process ID (required)'',
     '''',
     ''OPTIONS:'',
     ''    -t, --type <TYPES>           Container types to try (comma-separated)'',
     ''                                 [possible: process_id,podman,docker,nspawn,lxc,lxd,containerd,command,kubernetes]'',
     ''                                 [default: all but command]'',
     ''    --apparmor <MODE>            AppArmor profile mode'',
     ''                                 [possible: auto, off]'',
     ''                                 [default: auto]'',
     ''    -h, --help                   Print help'',
     ''    -V, --version                Print version'',
     '''',
     ''COMMAND:'',
     ''    Command and arguments to execute [default: /bin/sh]'',
     ''    Use '' @ quoted ''--'' @ '' to separate command from options'']"

definition help_lines :: "string list" where
  "help_lines =
    [''cntr '' @ VERSION,
     ''by '' @ AUTHORS,
     '''',
     ''Enter or execute in container'',
     '''',
     ''USAGE:'',
     ''    cntr <SUBCOMMAND>'',
     '''',
     ''SUBCOMMANDS:'',
     ''    attach    Enter container with mount overlay'',
     ''    exec      Execute command in container'',
     ''    help      Print help'',
     ''    version   Print version'']"

definition print_version :: "(unit, 'e) prog" where
  "print_version = eprint (''cntr '' @ VERSION)"

section \<open>The argument loops\<close>

record args_state =
  container_id :: "string option"
  container_types :: "nat list"
  effective_user :: "user option"
  apparmor_mode :: ApparmorMode
  command_parts :: "string list"
  in_command :: bool

definition args_start :: args_state where
  "args_start = \<lparr>container_id = None, container_types = [], effective_user = None, apparmor_mode = Auto,
     command_parts = [], in_command = False\<rparr>"

definition push_part :: "string \<Rightarrow> args_state \<Rightarrow> args_state" where
  "push_part arg st = st\<lparr>command_parts := command_parts st @ [arg]\<rparr>"

text \<open>An argument that is not an option: the container, then the start of the command.\<close>

definition positional :: "string \<Rightarrow> args_state \<Rightarrow> args_state" where
  "positional arg st = (if container_id st = None then st\<lparr>container_id := Some arg\<rparr>
     else (push_part arg st)\<lparr>in_command := True\<rparr>)"

definition set_types :: "string \<Rightarrow> args_state \<Rightarrow> (args_state, string) prog" where
  "set_types types_str st =
     bindP (askP (\<lambda>K h. parse_container_types (k_types K) types_str)) (\<lambda>r. case r of
         Inl e \<Rightarrow> throwP (''invalid --type argument '' @ quoted types_str @ '': '' @ e)
       | Inr ts \<Rightarrow> retP (st\<lparr>container_types := ts\<rparr>))"

definition set_user :: "string \<Rightarrow> args_state \<Rightarrow> (args_state, string) prog" where
  "set_user username st =
     bindP (attemptP (lookup username)) (\<lambda>r. case r of
         Inr (Some user) \<Rightarrow> retP (st\<lparr>effective_user := Some user\<rparr>)
       | Inr None \<Rightarrow> throwP (''user '' @ quoted username @ '' not found'')
       | Inl e \<Rightarrow>
           bindP (askP (\<lambda>K h. format_chain (passwd_chain K e))) (\<lambda>msg.
           throwP (''failed to lookup user '' @ quoted username @ '': '' @ msg)))"

definition set_mode :: "string \<Rightarrow> args_state \<Rightarrow> (args_state, string) prog" where
  "set_mode mode_str st =
     bindP (fromSum (parse_apparmor_mode mode_str)) (\<lambda>m. retP (st\<lparr>apparmor_mode := m\<rparr>))"

definition is_help :: "string \<Rightarrow> bool" where
  "is_help arg \<longleftrightarrow> arg = ''-h'' \<or> arg = ''--help''"

definition is_version :: "string \<Rightarrow> bool" where
  "is_version arg \<longleftrightarrow> arg = ''-V'' \<or> arg = ''--version''"

definition is_type :: "string \<Rightarrow> bool" where
  "is_type arg \<longleftrightarrow> arg = ''-t'' \<or> arg = ''--type''"

definition is_dashed :: "string \<Rightarrow> bool" where
  "is_dashed arg \<longleftrightarrow> prefix ''-'' arg"

fun attach_args :: "string list \<Rightarrow> args_state \<Rightarrow> (args_state option, string) prog" where
  "attach_args [] st = retP (Some st)"
| "attach_args (arg # args) st =
     (if in_command st then attach_args args (push_part arg st)
      else if is_help arg then bindP (eprint_lines attach_help_lines) (\<lambda>_. retP None)
      else if is_version arg then bindP print_version (\<lambda>_. retP None)
      else if is_type arg then (case args of
          [] \<Rightarrow> throwP ''--type requires an argument''
        | v # rest \<Rightarrow> bindP (set_types v st) (attach_args rest))
      else if arg = ''--effective-user'' then (case args of
          [] \<Rightarrow> throwP ''--effective-user requires an argument''
        | v # rest \<Rightarrow> bindP (set_user v st) (attach_args rest))
      else if arg = ''--apparmor'' then (case args of
          [] \<Rightarrow> throwP ''--apparmor requires an argument''
        | v # rest \<Rightarrow> bindP (set_mode v st) (attach_args rest))
      else if arg = ''--'' then attach_args args (st\<lparr>in_command := True\<rparr>)
      else if is_dashed arg then throwP (''unknown option: '' @ arg)
      else attach_args args (positional arg st))"

fun exec_args :: "string list \<Rightarrow> args_state \<Rightarrow> (args_state option, string) prog" where
  "exec_args [] st = retP (Some st)"
| "exec_args (arg # args) st =
     (if in_command st then exec_args args (push_part arg st)
      else if is_help arg then bindP (eprint_lines exec_help_lines) (\<lambda>_. retP None)
      else if is_version arg then bindP print_version (\<lambda>_. retP None)
      else if is_type arg then (case args of
          [] \<Rightarrow> throwP ''--type requires an argument''
        | v # rest \<Rightarrow> bindP (set_types v st) (exec_args rest))
      else if arg = ''--apparmor'' then (case args of
          [] \<Rightarrow> throwP ''--apparmor requires an argument''
        | v # rest \<Rightarrow> bindP (set_mode v st) (exec_args rest))
      else if arg = ''--'' then exec_args args (st\<lparr>in_command := True\<rparr>)
      else if is_dashed arg then throwP (''unknown option: '' @ arg)
      else exec_args args (positional arg st))"

definition split_command :: "string list \<Rightarrow> string option \<times> string list" where
  "split_command parts = (case parts of [] \<Rightarrow> (None, []) | c # rest \<Rightarrow> (Some c, rest))"

section \<open>The commands\<close>

definition parse_attach_args :: "string list \<Rightarrow> (exit_code, string) prog" where
  "parse_attach_args args =
     bindP (attach_args args args_start) (\<lambda>r. case r of
         None \<Rightarrow> retP SUCCESS
       | Some st \<Rightarrow> (case container_id st of
           None \<Rightarrow> throwP ''missing required argument: <CONTAINER_ID>''
         | Some container_name \<Rightarrow>
            (let (command, arguments) = split_command (command_parts st);
                 options = \<lparr>ao_command = command, ao_arguments = arguments, ao_container_name = container_name,
                   ao_container_types = container_types st, ao_effective_user = effective_user st,
                   ao_apparmor_mode = apparmor_mode st\<rparr> in
             bindP (attemptP (attach options)) (\<lambda>r. case r of
                 Inl e \<Rightarrow>
                   bindP (askP (\<lambda>K h. format_chain (attach_chain K e))) (\<lambda>msg.
                   throwP (''failed to attach to container '' @ quoted container_name @ '': '' @ msg))
               | Inr _ \<Rightarrow> retP SUCCESS))))"

definition parse_exec_args :: "string list \<Rightarrow> (exit_code, string) prog" where
  "parse_exec_args args =
     bindP (exec_args args args_start) (\<lambda>r. case r of
         None \<Rightarrow> retP SUCCESS
       | Some st \<Rightarrow>
            (let (command, arguments) = split_command (command_parts st) in
             case container_id st of
               None \<Rightarrow> throwP ''container ID is required for exec''
             | Some container_name \<Rightarrow>
                (let options = \<lparr>eo_command = command, eo_arguments = arguments,
                   eo_container_name = container_name, eo_container_types = container_types st,
                   eo_apparmor_mode = apparmor_mode st\<rparr> in
                 bindP (attemptP (exec options)) (\<lambda>r. case r of
                     Inl e \<Rightarrow>
                       bindP (askP (\<lambda>K h. format_chain (exec_chain K e))) (\<lambda>msg.
                       throwP (''failed to exec into container '' @ quoted container_name @ '': '' @ msg))
                   | Inr _ \<Rightarrow> retP SUCCESS))))"

definition maybe_set_dumpable :: "(unit, 'e) prog" where
  "maybe_set_dumpable =
     bindP (askP (\<lambda>K h. env_var K ''CNTR_ALLOW_SETCAP'')) (\<lambda>v.
     if v = Some ''1'' then bindP (call Set_dumpable) (\<lambda>_. retP ()) else retP ())"

text \<open>The arguments as text; the first one that is not UTF-8 is an error.\<close>

fun utf8_args :: "string list \<Rightarrow> string + string list" where
  "utf8_args [] = Inr []"
| "utf8_args (a # as) =
     (if utf8_valid a then map_sum id ((#) a) (utf8_args as)
      else Inl (''argument contains invalid UTF-8: '' @ from_utf8_lossy a))"

definition dispatch :: "string list \<Rightarrow> (exit_code, string) prog" where
  "dispatch args_iter = (case args_iter of
      [] \<Rightarrow> bindP (eprint_lines help_lines) (\<lambda>_. throwP ''no subcommand provided'')
    | subcommand # rest \<Rightarrow>
        if subcommand = ''attach'' then parse_attach_args rest
        else if subcommand = ''exec'' then parse_exec_args rest
        else if subcommand = ''help'' \<or> subcommand = ''-h'' \<or> subcommand = ''--help'' then
          bindP (eprint_lines help_lines) (\<lambda>_. retP SUCCESS)
        else if subcommand = ''version'' \<or> subcommand = ''-V'' \<or> subcommand = ''--version'' then
          bindP print_version (\<lambda>_. retP SUCCESS)
        else throwP (''unknown subcommand: '' @ subcommand))"

definition run_with_args :: "string list \<Rightarrow> (exit_code, string) prog" where
  "run_with_args args =
     bindP maybe_set_dumpable (\<lambda>_.
     bindP (fromSum (utf8_args args)) (\<lambda>args.
     dispatch (drop 1 args)))"

text \<open>\<open>main\<close>: an error is printed and the status is that of a failure.\<close>

definition main :: "string list \<Rightarrow> (unit, 'e) prog" where
  "main args =
     bindP (attemptP (run_with_args args)) (\<lambda>r. case r of
         Inr c \<Rightarrow> exitP (exit_status_of c)
       | Inl e \<Rightarrow> bindP (eprint e) (\<lambda>_. exitP (exit_status_of FAILURE)))"

section \<open>What the argument loops have in common\<close>

declare attach_args.simps [simp del] exec_args.simps [simp del]

lemmas arg_words = is_help_def is_version_def is_type_def is_dashed_def

lemma word_kinds [simp]:
  "is_dashed ''--''" "\<not> is_help ''--''" "\<not> is_version ''--''" "\<not> is_type ''--''"
  "\<not> is_help ''--apparmor''" "\<not> is_version ''--apparmor''" "\<not> is_type ''--apparmor''"
  "\<not> is_help ''--type''" "\<not> is_version ''--type''" "is_type ''--type''"
  by (simp_all add: arg_words)

lemma not_dashed:
  "\<not> is_dashed a \<Longrightarrow> \<not> is_help a \<and> \<not> is_version a \<and> \<not> is_type a \<and> a \<noteq> ''--'' \<and>
     a \<noteq> ''--apparmor'' \<and> a \<noteq> ''--effective-user''"
  by (auto simp: arg_words)

text \<open>A command line as its parts, and the argument list that a user types for it.\<close>

record request =
  rq_mode :: ApparmorMode
  rq_types :: "string list"
  rq_container :: string
  rq_command :: "string list"

definition mode_word :: "ApparmorMode \<Rightarrow> string" where
  "mode_word m = (case m of Auto \<Rightarrow> ''auto'' | Off \<Rightarrow> ''off'')"

definition render :: "request \<Rightarrow> string list" where
  "render r = [''--apparmor'', mode_word (rq_mode r)]
     @ (if rq_types r = [] then [] else [''--type'', join_with '','' (rq_types r)])
     @ [rq_container r] @ (if rq_command r = [] then [] else ''--'' # rq_command r)"

definition request_ok :: "(string \<Rightarrow> nat option) \<Rightarrow> request \<Rightarrow> bool" where
  "request_ok known r \<longleftrightarrow> \<not> is_dashed (rq_container r) \<and>
     list_all (\<lambda>t. known t \<noteq> None \<and> CHR '','' \<notin> set t \<and> trim t = t) (rq_types r)"

definition parsed :: "(string \<Rightarrow> nat option) \<Rightarrow> request \<Rightarrow> args_state" where
  "parsed known r = \<lparr>container_id = Some (rq_container r),
     container_types = List.map_filter known (rq_types r), effective_user = None, apparmor_mode = rq_mode r,
     command_parts = rq_command r, in_command = (rq_command r \<noteq> [])\<rparr>"

lemma sort_types_names:
  "sort_types known ts = (List.map_filter known (map trim ts), filter (\<lambda>t. known t = None) (map trim ts))"
  by (induction ts) (auto simp: List.map_filter_def Let_def split: option.splits)

lemma parse_types_join:
  assumes "ts \<noteq> []" "\<forall>t \<in> set ts. CHR '','' \<notin> set t"
  shows "parse_container_types known (join_with '','' ts) =
    (let names = map trim ts; unknown = filter (\<lambda>t. known t = None) names in
     if unknown = [] then Inr (List.map_filter known names)
     else Inl (''unknown container type(s): '' @ join_with '', '' unknown))"
proof -
  have "split_on (CHR '','') (join_with '','' ts) = ts"
    using assms by (intro split_on_join) (auto simp: list_all_iff)
  then show ?thesis by (simp add: parse_container_types_def sort_types_names Let_def)
qed

lemma parse_mode_word: "parse_apparmor_mode (mode_word m) = Inr m"
  by (cases m) (simp_all add: parse_apparmor_mode_def mode_word_def ascii_lower_def Let_def)

lemma set_mode_word: "set_mode (mode_word m) st = retP (st\<lparr>apparmor_mode := m\<rparr>)"
  by (simp add: set_mode_def parse_mode_word fromSum_def)

lemma set_types_join:
  assumes "ts \<noteq> []" "list_all (\<lambda>t. k_types K t \<noteq> None \<and> CHR '','' \<notin> set t \<and> trim t = t) ts"
  shows "set_types (join_with '','' ts) st K h = (Ret (st\<lparr>container_types := List.map_filter (k_types K) ts\<rparr>), h)"
proof -
  have "map trim ts = ts" using assms(2) by (auto simp: list_all_iff intro: map_idI)
  moreover have "filter (\<lambda>t. k_types K t = None) ts = []" using assms(2) by (auto simp: list_all_iff filter_empty_conv)
  moreover have "\<forall>t \<in> set ts. CHR '','' \<notin> set t" using assms(2) by (auto simp: list_all_iff)
  ultimately have "parse_container_types (k_types K) (join_with '','' ts) = Inr (List.map_filter (k_types K) ts)"
    using assms(1) by (simp add: parse_types_join)
  then show ?thesis by (simp add: set_types_def prog_simps)
qed

text \<open>The contract of an argument loop: its end, the command, the separator, a positional
  argument, \<open>--type\<close> and \<open>--apparmor\<close>, and what an option that is not one of the three
  words \<open>--\<close>, \<open>--type\<close>, \<open>--apparmor\<close> can lead to.\<close>

locale arg_parser =
  fixes parse :: "string list \<Rightarrow> args_state \<Rightarrow> (args_state option, string) prog"
  assumes parse_end: "parse [] st = retP (Some st)"
    and parse_command: "in_command st \<Longrightarrow> parse (a # as) st = parse as (push_part a st)"
    and parse_separator: "\<not> in_command st \<Longrightarrow> parse (''--'' # as) st = parse as (st\<lparr>in_command := True\<rparr>)"
    and parse_positional: "\<not> in_command st \<Longrightarrow> \<not> is_dashed a \<Longrightarrow> parse (a # as) st = parse as (positional a st)"
    and parse_type: "\<not> in_command st \<Longrightarrow> parse (''--type'' # v # as) st = bindP (set_types v st) (parse as)"
    and parse_mode: "\<not> in_command st \<Longrightarrow> parse (''--apparmor'' # v # as) st = bindP (set_mode v st) (parse as)"
begin

lemma parse_verbatim:
  "in_command st \<Longrightarrow> parse as st = retP (Some (st\<lparr>command_parts := command_parts st @ as\<rparr>))"
proof (induction as arbitrary: st)
  case Nil
  then show ?case by (simp add: parse_end)
next
  case (Cons a as)
  then show ?case by (simp add: parse_command push_part_def)
qed

lemma parse_after_separator:
  "\<not> in_command st \<Longrightarrow> parse (''--'' # as) st =
     retP (Some (st\<lparr>in_command := True, command_parts := command_parts st @ as\<rparr>))"
  by (simp add: parse_separator parse_verbatim)

lemma parse_render:
  assumes "request_ok (k_types K) r"
  shows "parse (render r) args_start K h = (Ret (Some (parsed (k_types K) r)), h)"
proof -
  let ?st = "args_start\<lparr>apparmor_mode := rq_mode r\<rparr>"
  let ?st2 = "?st\<lparr>container_types := List.map_filter (k_types K) (rq_types r)\<rparr>"
  let ?rest = "rq_container r # (if rq_command r = [] then [] else ''--'' # rq_command r)"
  have ok: "\<not> is_dashed (rq_container r)"
    "list_all (\<lambda>t. k_types K t \<noteq> None \<and> CHR '','' \<notin> set t \<and> trim t = t) (rq_types r)"
    using assms by (simp_all add: request_ok_def)
  have start: "\<not> in_command (s\<lparr>apparmor_mode := m\<rparr>)" "\<not> in_command (s\<lparr>container_types := ts\<rparr>)"
    if "\<not> in_command s" for s :: args_state and m ts using that by simp_all
  have fresh: "\<not> in_command args_start" by (simp add: args_start_def)
  have rest: "parse ?rest ?st2 K h = (Ret (Some (parsed (k_types K) r)), h)"
    using parse_positional [of ?st2 "rq_container r"] ok(1)
    by (simp add: args_start_def positional_def parse_end parse_after_separator parsed_def prog_simps)
  show ?thesis
  proof (cases "rq_types r = []")
    case True
    then have "?st2 = ?st" by (simp add: args_start_def List.map_filter_def)
    with True rest show ?thesis
      by (simp add: render_def parse_mode fresh set_mode_word)
  next
    case False
    with rest show ?thesis
      using set_types_join [OF False ok(2), of ?st h]
      by (simp add: render_def parse_mode parse_type fresh start set_mode_word bindP_run)
  qed
qed

end

interpretation attach_parser: arg_parser attach_args
proof
  show "attach_args (a # as) st = attach_args as (positional a st)" if "\<not> in_command st" "\<not> is_dashed a" for st a as
    using that not_dashed [OF that(2)] by (simp add: attach_args.simps(2))
qed (simp_all add: attach_args.simps)

interpretation exec_parser: arg_parser exec_args
proof
  show "exec_args (a # as) st = exec_args as (positional a st)" if "\<not> in_command st" "\<not> is_dashed a" for st a as
    using that not_dashed [OF that(2)] by (simp add: exec_args.simps(2))
qed (simp_all add: exec_args.simps)


text \<open>C21: What a user types for a request is parsed back: both argument loops give, without any
  call, exactly the container, the container types in order, the AppArmor mode and the
  command, whatever words (options and further \<open>--\<close> included) the command consists of.\<close>

theorem args_roundtrip:
  assumes "request_ok (k_types K) r"
  shows "attach_args (render r) args_start K h = (Ret (Some (parsed (k_types K) r)), h) \<and>
    exec_args (render r) args_start K h = (Ret (Some (parsed (k_types K) r)), h)"
  using attach_parser.parse_render [OF assms] exec_parser.parse_render [OF assms] by blast

theorem args_roundtrip_witness:
  "exec_args [''--apparmor'', ''off'', ''--type'', ''docker,podman'', ''web'', ''--'', ''ls'', ''--help''] args_start
     (sample\<lparr>k_types := (\<lambda>t. if t = ''docker'' then Some 1 else if t = ''podman'' then Some 2 else None)\<rparr>) [] =
   (Ret (Some \<lparr>container_id = Some ''web'', container_types = [1, 2], effective_user = None, apparmor_mode = Off,
      command_parts = [''ls'', ''--help''], in_command = True\<rparr>), [])"
proof -
  let ?K = "sample\<lparr>k_types := (\<lambda>t. if t = ''docker'' then Some 1 else if t = ''podman'' then Some 2 else None)\<rparr>"
  let ?r = "\<lparr>rq_mode = Off, rq_types = [''docker'', ''podman''], rq_container = ''web'', rq_command = [''ls'', ''--help'']\<rparr>"
  have "trim ''docker'' = ''docker''" "trim ''podman'' = ''podman''" by code_simp+
  then have "request_ok (k_types ?K) ?r" by (simp add: request_ok_def is_dashed_def)
  from args_roundtrip [OF this, of "[]"] show ?thesis
    by (simp add: render_def parsed_def mode_word_def List.map_filter_def)
qed

definition takes_value :: "string \<Rightarrow> bool" where
  "takes_value arg \<longleftrightarrow> is_type arg \<or> arg = ''--effective-user'' \<or> arg = ''--apparmor''"

definition set_option :: "string \<Rightarrow> string \<Rightarrow> args_state \<Rightarrow> (args_state, string) prog" where
  "set_option arg v st = (if is_type arg then set_types v st
     else if arg = ''--effective-user'' then set_user v st else set_mode v st)"

lemma attach_option:
  "\<not> in_command st \<Longrightarrow> \<not> is_help arg \<Longrightarrow> \<not> is_version arg \<Longrightarrow> takes_value arg \<Longrightarrow>
   attach_args (arg # v # as) st = bindP (set_option arg v st) (attach_args as)"
  unfolding takes_value_def
proof (elim disjE)
  assume "\<not> in_command st" "\<not> is_help arg" "\<not> is_version arg" "is_type arg"
  then show ?thesis by (simp add: attach_args.simps(2) [of arg] set_option_def)
qed (simp_all add: attach_args.simps(2) set_option_def is_type_def)

lemma attach_no_command:
  assumes "attach_args (arg # args) st K h = (Ret (Some st'), h')" "\<not> in_command st'"
  shows "\<not> in_command st \<and> \<not> is_help arg \<and> \<not> is_version arg \<and> (takes_value arg \<longrightarrow> args \<noteq> [])"
proof -
  have st: "\<not> in_command st"
    using assms attach_parser.parse_verbatim [of st "arg # args"] by (cases "in_command st") (auto simp: prog_simps)
  then have words: "\<not> is_help arg" "\<not> is_version arg"
    using assms(1) by (auto simp: attach_args.simps prog_inv split: if_splits)
  with assms(1) st have "takes_value arg \<longrightarrow> args \<noteq> []"
    by (auto simp: attach_args.simps(2) takes_value_def prog_inv split: if_splits)
  with st words show ?thesis by blast
qed

lemma attach_other:
  assumes "attach_args (arg # args) st K h = (Ret (Some st'), h')" "\<not> in_command st'" "\<not> takes_value arg"
  shows "\<not> is_dashed arg"
  using attach_no_command [OF assms(1,2)] assms attach_parser.parse_verbatim [of "st\<lparr>in_command := True\<rparr>" args]
  by (auto simp: attach_args.simps(2) [of arg] takes_value_def prog_inv prog_simps split: if_splits)

text \<open>The separator protects the command: when the arguments before it are parsed without a
  command having begun, everything after it becomes the command word by word, and the rest of
  the result is that of the arguments before it.\<close>

theorem separator_protects_command:
  assumes "attach_args as st K h = (Ret (Some st'), h')" "\<not> in_command st'"
  shows "attach_args (as @ ''--'' # cmd) st K h =
    (Ret (Some (st'\<lparr>in_command := True, command_parts := command_parts st' @ cmd\<rparr>)), h')"
  using assms
proof (induction as arbitrary: st h rule: length_induct)
  case (1 as)
  show ?case
  proof (cases as)
    case Nil
    with "1.prems" show ?thesis
      by (simp add: attach_parser.parse_end attach_parser.parse_after_separator prog_simps)
  next
    case (Cons arg args)
    note run = "1.prems"(1) [unfolded Cons]
    from attach_no_command [OF run "1.prems"(2)] have st: "\<not> in_command st" "\<not> is_help arg" "\<not> is_version arg"
      and args: "takes_value arg \<Longrightarrow> args \<noteq> []" by blast+
    show ?thesis
    proof (cases "takes_value arg")
      case True
      with args obtain v rest where "args = v # rest" by (cases args) auto
      with run "1.prems"(2) "1.IH" True st Cons show ?thesis
        by (auto simp: attach_option bindP_run split: prod.splits res.splits)
    next
      case False
      from attach_other [OF run "1.prems"(2) this] st run "1.prems"(2) "1.IH" Cons show ?thesis
        by (simp add: attach_parser.parse_positional)
    qed
  qed
qed

theorem separator_protects_command_witness:
  "attach_args ([''web'', ''--apparmor'', ''OFF''] @ ''--'' # [''sh'', ''--help'', ''--'']) args_start sample [] =
   (Ret (Some \<lparr>container_id = Some ''web'', container_types = [], effective_user = None, apparmor_mode = Off,
      command_parts = [''sh'', ''--help'', ''--''], in_command = True\<rparr>), [])"
proof -
  let ?st = "\<lparr>container_id = Some ''web'', container_types = [], effective_user = None, apparmor_mode = Off,
      command_parts = [], in_command = False\<rparr>"
  have mode: "parse_apparmor_mode ''OFF'' = Inr Off" by code_simp
  have "attach_args [''web'', ''--apparmor'', ''OFF''] args_start sample [] = (Ret (Some ?st), [])"
    by (simp add: attach_parser.parse_positional attach_parser.parse_mode attach_parser.parse_end args_start_def
        positional_def set_mode_def mode is_dashed_def prog_simps)
  from separator_protects_command [OF this, of "[''sh'', ''--help'', ''--'']"] show ?thesis by simp
qed

text \<open>C37: \<open>exec\<close> takes the arguments of \<open>attach\<close>: on every argument list in which
  \<open>--effective-user\<close> and the two words for help do not occur, the two loops behave alike,
  errors and calls included.\<close>

theorem exec_args_as_attach_args:
  assumes "set as \<inter> {''--effective-user'', ''-h'', ''--help''} = {}"
  shows "exec_args as st = attach_args as st"
  using assms
proof (induction as st rule: exec_args.induct)
  case (1 st)
  then show ?case by (simp add: attach_parser.parse_end exec_parser.parse_end)
next
  case (2 arg args st)
  have words: "\<not> is_help arg" "arg \<noteq> ''--effective-user''" using 2(6) by (auto simp: is_help_def)
  have tl: "set args \<inter> {''--effective-user'', ''-h'', ''--help''} = {}" using 2(6) by auto
  then have vr: "set rest \<inter> {''--effective-user'', ''-h'', ''--help''} = {}" if "args = v # rest" for v rest
    using that by auto
  have opt: "exec_args rest = attach_args rest"
    if "\<not> in_command st" "\<not> is_version arg" "is_type arg \<or> arg = ''--apparmor''" "args = v # rest" for v rest
    using that words 2(2,3) [OF that(1) words(1) that(2)] vr [OF that(4)] by (intro ext) auto
  show ?case
  proof (cases args)
    case Nil
    with words 2(1,4,5) show ?thesis by (simp add: attach_args.simps exec_args.simps)
  next
    case (Cons v rest)
    with words 2(1,4,5) tl opt show ?thesis by (simp add: attach_args.simps(2) [of arg] exec_args.simps(2) [of arg])
  qed
qed


theorem exec_args_as_attach_args_witness:
  "exec_args [''web'', ''-x''] args_start = attach_args [''web'', ''-x''] args_start"
  by (rule exec_args_as_attach_args) simp

text \<open>A list of container types is read as its names, in order, without the spaces around
  them: when all are known the result is their types, and otherwise the message names exactly
  the unknown ones, in order.\<close>

theorem container_types_read:
  assumes "ts \<noteq> []" "\<forall>t \<in> set ts. CHR '','' \<notin> set t"
  shows "parse_container_types known (join_with '','' ts) =
    (if \<forall>t \<in> set ts. known (trim t) \<noteq> None then Inr (map (\<lambda>t. the (known (trim t))) ts)
     else Inl (''unknown container type(s): '' @ join_with '', '' (filter (\<lambda>n. known n = None) (map trim ts))))"
proof (cases "\<forall>t \<in> set ts. known (trim t) \<noteq> None")
  case True
  then have "filter (\<lambda>n. known n = None) (map trim ts) = []" by (auto simp: filter_empty_conv)
  moreover have "List.map_filter known (map trim ts) = map (\<lambda>t. the (known (trim t))) ts"
    using True by (induction ts) (auto simp: List.map_filter_def)
  ultimately show ?thesis using True by (simp add: parse_types_join [OF assms])
next
  case False
  then have "filter (\<lambda>n. known n = None) (map trim ts) \<noteq> []" by (auto simp: filter_empty_conv)
  with False show ?thesis unfolding parse_types_join [OF assms] Let_def by presburger
qed

theorem container_types_read_witness:
  "parse_container_types (\<lambda>t. if t = ''lxc'' then Some 4 else None) ''lxc, foo'' = Inl ''unknown container type(s): foo''"
proof -
  have "trim ''lxc'' = ''lxc''" "trim '' foo'' = ''foo''" by code_simp+
  then show ?thesis using container_types_read [of "[''lxc'', '' foo'']" "\<lambda>t. if t = ''lxc'' then Some 4 else None"] by simp
qed


section \<open>What a run that returns has done\<close>

definition console_event :: "event \<Rightarrow> bool" where
  "console_event e = (case fst e of Eprint _ \<Rightarrow> True | Getpwnam _ _ \<Rightarrow> True | Set_dumpable \<Rightarrow> True | _ \<Rightarrow> False)"

lemma console_eprint [emits_intros]: "emits console_event (eprint m)"
  unfolding eprint_def by (intro emits_intros) (simp add: console_event_def)

lemma console_lines [emits_intros]: "emits console_event (eprint_lines ls)"
  unfolding eprint_lines_def by (intro emits_intros)

lemma console_lookup [emits_intros]: "emits console_event (lookup nm)"
  unfolding lookup_def lookup_step_def
  by (intro emits_intros) (auto intro!: emits_intros simp: console_event_def split: pw_reply.split)

lemma console_set [emits_intros]:
  "emits console_event (set_types v st)" "emits console_event (set_user v st)" "emits console_event (set_mode v st)"
  unfolding set_types_def set_user_def set_mode_def by (intro emits_intros)+

lemma console_attach_args [emits_intros]: "emits console_event (attach_args as st)"
proof (induction as st rule: attach_args.induct)
  case (1 st)
  show ?case by (simp add: attach_args.simps emits_intros)
next
  case (2 arg args st)
  show ?case unfolding attach_args.simps(2) print_version_def by (intro emits_intros 2) assumption+
qed

lemma console_exec_args [emits_intros]: "emits console_event (exec_args as st)"
proof (induction as st rule: exec_args.induct)
  case (1 st)
  show ?case by (simp add: exec_args.simps emits_intros)
next
  case (2 arg args st)
  show ?case unfolding exec_args.simps(2) print_version_def by (intro emits_intros 2) assumption+
qed


lemma attach_no_value: "attach opts K h \<noteq> (Ret u, h')"
  using ends_inD [OF ends_attach [of "{O_err, O_exit, O_exec, O_panic, O_hang}"]] by fastforce

lemma exec_no_value: "exec opts K h \<noteq> (Ret u, h')"
  using ends_inD [OF ends_exec_program [of "{O_err, O_exit, O_exec, O_panic, O_hang}"]] by fastforce

lemma report_no_value:
  assumes "\<And>u b. m K h \<noteq> (Ret u, b)"
  shows "bindP (attemptP m) (\<lambda>r. case r of Inl e \<Rightarrow> bindP (askP (q e)) (\<lambda>msg. throwP (f msg)) | Inr _ \<Rightarrow> retP y) K h
    \<noteq> (Ret c, h')"
proof (cases "m K h")
  case (Pair r b)
  with assms show ?thesis by (cases r) (auto simp: prog_simps)
qed

lemma parse_attach_Ret:
  assumes "parse_attach_args as K h = (Ret c, h')"
  shows "c = SUCCESS \<and> attach_args as args_start K h = (Ret None, h')"
  using assms unfolding parse_attach_args_def bindP_Ret [where m = "attach_args as args_start"]
  apply (elim exE conjE)
  subgoal for r h1
    by (cases r)
      (auto simp: retP_inv report_no_value attach_no_value Let_def split: option.splits prod.splits)
  done

lemma parse_exec_Ret:
  assumes "parse_exec_args as K h = (Ret c, h')"
  shows "c = SUCCESS \<and> exec_args as args_start K h = (Ret None, h')"
  using assms unfolding parse_exec_args_def bindP_Ret [where m = "exec_args as args_start"]
  apply (elim exE conjE)
  subgoal for r h1
    by (cases r)
      (auto simp: retP_inv report_no_value exec_no_value Let_def split: option.splits prod.splits)
  done

lemma dispatch_Ret:
  assumes "dispatch as K h = (Ret c, h')"
  shows "c = SUCCESS \<and> (\<exists>s. h' = h @ s \<and> list_all console_event s)"
proof (cases as)
  case Nil
  with assms show ?thesis by (simp add: dispatch_def prog_inv)
next
  case (Cons sub rest)
  have prints: "emits console_event (bindP (eprint_lines help_lines) (\<lambda>_. retP SUCCESS) :: (exit_code, string) prog)"
    "emits console_event (bindP print_version (\<lambda>_. retP SUCCESS) :: (exit_code, string) prog)"
    unfolding print_version_def by (intro emits_intros)+
  consider "sub = ''attach''" | "sub = ''exec''" | "sub \<noteq> ''attach''" "sub \<noteq> ''exec''" by blast
  then show ?thesis
  proof cases
    case 1
    with assms Cons have "parse_attach_args rest K h = (Ret c, h')" by (simp add: dispatch_def)
    from parse_attach_Ret [OF this] emitsD [OF console_attach_args] show ?thesis by blast
  next
    case 2
    with assms Cons have "parse_exec_args rest K h = (Ret c, h')" by (simp add: dispatch_def)
    from parse_exec_Ret [OF this] emitsD [OF console_exec_args] show ?thesis by blast
  next
    case 3
    with assms Cons have
      "(bindP (eprint_lines help_lines) (\<lambda>_. retP SUCCESS) :: (exit_code, string) prog) K h = (Ret c, h') \<or>
       (bindP print_version (\<lambda>_. retP SUCCESS) :: (exit_code, string) prog) K h = (Ret c, h')"
      by (simp add: dispatch_def throwP_run split: if_splits)
    moreover from this have "c = SUCCESS" by (auto simp: prog_inv)
    ultimately show ?thesis using emitsD [OF prints(1)] emitsD [OF prints(2)] by metis
  qed
qed

text \<open>C27: A run that returns to \<open>main\<close> without an error has only answered a question about the
  program: its status is that of success and all it has done is printing, looking up user
  names and (when asked to) making itself dumpable; no container was entered and no process
  was made. Entering a container never returns.\<close>

theorem run_returns_only_prints:
  assumes "run_with_args args K h = (Ret c, h')"
  shows "c = SUCCESS \<and> (\<exists>s. h' = h @ s \<and> list_all console_event s)"
proof -
  have "emits console_event (maybe_set_dumpable :: (unit, string) prog)"
    unfolding maybe_set_dumpable_def by (intro emits_intros) (simp_all add: console_event_def)
  moreover from assms obtain h1 as where
    "(maybe_set_dumpable :: (unit, string) prog) K h = (Ret (), h1)" "dispatch (drop 1 as) K h1 = (Ret c, h')"
    by (auto simp: run_with_args_def prog_inv)
  ultimately show ?thesis using emitsD dispatch_Ret by fastforce
qed

theorem run_returns_only_prints_witness:
  "\<exists>h'. run_with_args [''cntr'', ''version''] sample [] = (Ret SUCCESS, h') \<and> list_all console_event h'"
proof -
  have "utf8_valid ''cntr''" "utf8_valid ''version''" by code_simp+
  then obtain h' where run: "run_with_args [''cntr'', ''version''] sample [] = (Ret SUCCESS, h')"
    by (simp add: run_with_args_def maybe_set_dumpable_def env_var_def sample_def dispatch_def print_version_def prog_simps)
  from run_returns_only_prints [OF this] run show ?thesis by auto
qed

lemma utf8_args_invalid:
  "list_all utf8_valid pre \<Longrightarrow> \<not> utf8_valid a \<Longrightarrow>
   utf8_args (pre @ a # post) = Inl (''argument contains invalid UTF-8: '' @ from_utf8_lossy a)"
  by (induction pre) auto

lemma utf8_args_valid: "list_all utf8_valid as \<Longrightarrow> utf8_args as = Inr as"
  by (induction as) auto

text \<open>The first argument that is not valid UTF-8 ends the program before anything else is
  looked at: it is reported, with the invalid bytes replaced, and the status is that of a
  failure.\<close>

theorem invalid_argument_rejected:
  assumes "list_all utf8_valid pre" "\<not> utf8_valid a" "env_var K ''CNTR_ALLOW_SETCAP'' \<noteq> Some ''1''"
  shows "\<exists>q. (main (pre @ a # post) :: (unit, 'e) prog) K h =
    (Exit 1, h @ [(Eprint (''argument contains invalid UTF-8: '' @ from_utf8_lossy a), q)])"
  using assms
  by (simp add: main_def run_with_args_def maybe_set_dumpable_def utf8_args_invalid prog_simps exit_status_of_def)

theorem invalid_argument_rejected_witness:
  "\<exists>q. (main [''cntr'', [CHR 0xFF], ''x''] :: (unit, unit) prog) sample [] =
    (Exit 1, [(Eprint (''argument contains invalid UTF-8: '' @ [CHR 0xEF, CHR 0xBF, CHR 0xBD]), q)])"
proof -
  have v: "list_all utf8_valid [''cntr'']" "\<not> utf8_valid [CHR 0xFF]" "from_utf8_lossy [CHR 0xFF] = [CHR 0xEF, CHR 0xBF, CHR 0xBD]"
    by code_simp+
  have "env_var sample ''CNTR_ALLOW_SETCAP'' \<noteq> Some ''1''" by (simp add: env_var_def sample_def)
  from invalid_argument_rejected [OF v(1,2) this, of "[''x'']" "[]", where 'e = unit] v(3) show ?thesis by simp
qed

end
