(* ===== verification/Panic_Free.thy ===== *)
theory Panic_Free
  imports Cli
begin

text \<open>
  The program does not panic. \<open>calm K m\<close> says that \<open>m\<close> cannot panic on the kernel \<open>K\<close>: unlike
  \<open>ends_in\<close> it may use what the kernel promises. The only panics of the sources are the
  assertion on the last capability, the assertion on the number of descriptors, the slice of
  the copying buffer, and the branches behind calls that do not return.
\<close>

section \<open>Programs that do not panic on a kernel\<close>

definition calm :: "kernel \<Rightarrow> ('a, 'e) prog \<Rightarrow> bool" where
  "calm K m \<longleftrightarrow> (\<forall>h. fst (m K h) \<noteq> Panic)"

named_theorems calm_intros

lemma calmD: "calm K m \<Longrightarrow> m K h = (r, h') \<Longrightarrow> r \<noteq> Panic"
  unfolding calm_def by (metis fst_conv)

lemma calm_ends: "ends_in S m \<Longrightarrow> O_panic \<notin> S \<Longrightarrow> calm K m"
  unfolding ends_in_def calm_def by (metis outcome_of.simps(3))

lemma calm_ret [calm_intros]: "calm K (retP x)"
  by (simp add: calm_def prog_simps)

lemma calm_throw [calm_intros]: "calm K (throwP e)"
  by (simp add: calm_def prog_simps)

lemma calm_exit [calm_intros]: "calm K (exitP n)"
  by (simp add: calm_def prog_simps)

lemma calm_ask [calm_intros]: "calm K (askP q)"
  by (simp add: calm_def prog_simps)

lemma calm_call [calm_intros]: "calm K (call c)"
  by (simp add: calm_def prog_simps)

lemma calm_query [calm_intros]: "calm K (query c q)"
  by (simp add: calm_def prog_simps)

lemma calm_bind [calm_intros]:
  assumes "calm K m" "\<And>x h h'. m K h = (Ret x, h') \<Longrightarrow> calm K (f x)"
  shows "calm K (bindP m f)"
  unfolding calm_def
proof
  fix h
  obtain r h' where "m K h = (r, h')" by fastforce
  with assms show "fst (bindP m f K h) \<noteq> Panic"
    by (cases r) (auto simp: bindP_run calm_def, metis fst_conv)
qed

lemma fst_map_errP: "fst (map_errP g m K h) = Panic \<longleftrightarrow> fst (m K h) = Panic"
  by (simp add: map_errP_def split: prod.split res.split)

lemma fst_attemptP: "fst (attemptP m K h) = Panic \<longleftrightarrow> fst (m K h) = Panic"
  by (simp add: attemptP_def split: prod.split res.split)

lemma fst_finallyP: "fst (finallyP m d K h) = Panic \<longleftrightarrow> fst (m K h) = Panic"
  by (simp add: finallyP_def split: prod.split res.split)

lemma calm_map_err [calm_intros]: "calm K m \<Longrightarrow> calm K (map_errP g m)"
  by (simp add: calm_def fst_map_errP)

lemma calm_attempt [calm_intros]: "calm K m \<Longrightarrow> calm K (attemptP m)"
  by (simp add: calm_def fst_attemptP)

lemma calm_finally [calm_intros]: "calm K m \<Longrightarrow> calm K (finallyP m d)"
  by (simp add: calm_def fst_finallyP)

lemma calm_if [calm_intros]: "(b \<Longrightarrow> calm K m) \<Longrightarrow> (\<not> b \<Longrightarrow> calm K n) \<Longrightarrow> calm K (if b then m else n)"
  by simp

lemma calm_sum [calm_intros]:
  "(\<And>x. r = Inl x \<Longrightarrow> calm K (f x)) \<Longrightarrow> (\<And>y. r = Inr y \<Longrightarrow> calm K (g y)) \<Longrightarrow> calm K (case_sum f g r)"
  by (cases r) auto

lemma calm_option [calm_intros]:
  "(r = None \<Longrightarrow> calm K m) \<Longrightarrow> (\<And>y. r = Some y \<Longrightarrow> calm K (g y)) \<Longrightarrow> calm K (case_option m g r)"
  by (cases r) auto

lemma calm_prod [calm_intros]: "(\<And>x y. r = (x, y) \<Longrightarrow> calm K (f x y)) \<Longrightarrow> calm K (case_prod f r)"
  by (cases r) auto

lemma calm_list [calm_intros]:
  "(r = [] \<Longrightarrow> calm K m) \<Longrightarrow> (\<And>x xs. r = x # xs \<Longrightarrow> calm K (g x xs)) \<Longrightarrow> calm K (case_list m g r)"
  by (cases r) auto

lemma calm_Let [calm_intros]: "calm K (f y) \<Longrightarrow> calm K (Let y f)"
  by simp

lemma calm_fork_result [calm_intros]:
  "(r = Fork_Child \<Longrightarrow> calm K m) \<Longrightarrow> (\<And>c. r = ParentOf c \<Longrightarrow> calm K (f c)) \<Longrightarrow> calm K (case_fork_result m f r)"
  by (cases r) auto

text \<open>A loop: the rounds keep an invariant of the state, under which no round panics.\<close>

lemma calm_loop:
  assumes "I s" "\<And>s h r h'. I s \<Longrightarrow> body s K h = (r, h') \<Longrightarrow> r \<noteq> Panic \<and> (\<forall>s'. r = Ret (Inl s') \<longrightarrow> I s')"
  shows "calm K (loopP body s)"
  unfolding calm_def
proof
  fix h
  obtain r h' where run: "loopP body s K h = (r, h')" by fastforce
  have "r \<noteq> Panic"
  proof
    assume "r = Panic"
    with loopP_invariant [OF run, of "\<lambda>s h. I s"] assms obtain s1 h1 where
      "I s1" "body s1 K h1 = (Panic, h')" by fastforce
    with assms(2) show False by blast
  qed
  with run show "fst (loopP body s K h) \<noteq> Panic" by simp
qed

section \<open>The copying loop\<close>

lemma fp_write_keeps:
  assumes "honest_io K" "fp_bounds p"
  shows "\<exists>p' more h'. (fp_write p :: (_, 'e) prog) K h = (Ret (p', more), h') \<and> (more \<longrightarrow> fp_ok p')"
  using assms
  by (cases "k_call K h (Write (fp_to p) (pending p))")
    (auto simp: fp_write_def prog_simps fp_bounds_def fp_ok_def pending_def honest_io_def Let_def)

lemma fp_service_keeps:
  assumes "honest_io K" "fp_ok p"
  shows "\<exists>p' more h'. (fp_service p :: (_, 'e) prog) K h = (Ret (p', more), h') \<and> (more \<longrightarrow> fp_ok p')"
proof (cases "fp_state p")
  case FP_Write
  with fp_write_keeps [OF assms(1)] assms(2) show ?thesis by (simp add: fp_service_def fp_ok_def)
next
  case FP_Read
  show ?thesis
  proof (cases "k_fdread K h (fp_from p) (length (fp_buf p))")
    case (Inl e)
    with FP_Read show ?thesis by (auto simp: fp_service_def fp_read_def prog_simps)
  next
    case (Inr d)
    with assms FP_Read have "fp_bounds (p\<lparr>fp_buf := take (length (fp_buf p)) d @ drop (length d) (fp_buf p), read_offset := length d\<rparr>)"
      by (auto simp: honest_io_def fp_ok_def fp_bounds_def)
    from fp_write_keeps [OF assms(1) this] Inr FP_Read show ?thesis
      by (simp add: fp_service_def fp_read_def prog_simps)
  qed
qed

lemma service_keeps:
  assumes "honest_io K"
  shows "list_all fp_ok ps \<Longrightarrow> \<exists>ps' more h'. (service ps rs :: (_, 'e) prog) K h = (Ret (ps', more), h') \<and> (more \<longrightarrow> list_all fp_ok ps')"
proof (induction ps rs arbitrary: h rule: service.induct)
  case (3 p ps r rs)
  from fp_service_keeps [OF assms, of p h, where 'e = 'e] "3.prems" obtain p' more h1 where
    p: "(fp_service p :: (_, 'e) prog) K h = (Ret (p', more), h1)" "more \<longrightarrow> fp_ok p'" by auto
  show ?case
  proof (cases r)
    case False
    with "3.IH"(1) [of h] "3.prems" show ?thesis by (auto simp: prog_simps)
  next
    case True
    show ?thesis
    proof (cases more)
      case more: True
      with "3.IH"(2) [of True h1] "3.prems" True p show ?thesis by (auto simp: prog_simps)
    qed (use True p in \<open>auto simp: prog_simps\<close>)
  qed
qed (auto simp: prog_simps)

lemma shovel_step_keeps:
  assumes K: "honest_io K" and inv: "list_all fp_ok (fst st)"
    and run: "(shovel_step resize st :: (_, 'e) prog) K h = (r, h')"
  shows "r \<noteq> Panic \<and> (\<forall>st'. r = Ret (Inl st') \<longrightarrow> list_all fp_ok (fst st'))"
proof -
  obtain ps lw where st: "st = (ps, lw)" by fastforce
  show ?thesis
  proof (cases "k_poll K h")
    case (Inl e)
    with run inv st show ?thesis by (auto simp: shovel_step_def prog_simps split: if_splits)
  next
    case (Inr revents)
    let ?h = "h @ [(Poll (map poll_fd ps) (resize \<noteq> None), Inr 0)]"
    obtain lw' t where u: "(update_winsize resize lw :: (_, 'e) prog) K ?h = (Ret lw', ?h @ t)"
      using quiet_run [OF update_winsize_quiet] by blast
    from service_keeps [OF K, of ps revents "?h @ t", where 'e = 'e] inv st obtain ps' more h2 where
      "(service ps revents :: (_, 'e) prog) K (?h @ t) = (Ret (ps', more), h2)" "more \<longrightarrow> list_all fp_ok ps'" by auto
    with run Inr u st show ?thesis by (auto simp: shovel_step_def prog_simps split: if_splits)
  qed
qed

lemma calm_shovel [calm_intros]:
  assumes "honest_io K"
  shows "calm K (shovel [FilePair_new a b, FilePair_new c d] resize)"
  unfolding shovel_def
proof (rule calm_bind)
  show "calm K (shovel_init resize)" by (rule calm_ends [OF shovel_init_quiet(2)]) simp
  fix lw
  have "list_all fp_ok [FilePair_new a b, FilePair_new c d]"
    by (simp add: FilePair_new_def fp_ok_def fp_bounds_def)
  then show "calm K (loopP (shovel_step resize) ([FilePair_new a b, FilePair_new c d], lw))"
    by (intro calm_loop [where I = "\<lambda>st. list_all fp_ok (fst st)"] shovel_step_keeps [OF assms]) auto
qed

section \<open>The processes\<close>

lemma calm_try_call [calm_intros]: "calm K (tryP g (call c))" "calm K (tryP g (query c q))"
  by (rule calm_ends [where S = "{O_ret, O_err}"], intro outcome_intros, auto)+

lemma calm_forward [calm_intros]: "honest_io K \<Longrightarrow> calm K (forward pty)"
  unfolding forward_def forward_files_def dup_fd_def isatty_def RawTty_new_def
  by (intro calm_intros) simp_all

lemma calm_wait [calm_intros]: "calm K (wait_for_child c)"
  by (rule calm_ends [OF ends_wait_for_child [OF subset_refl]]) simp

lemma calm_forward_wait [calm_intros]: "honest_io K \<Longrightarrow> calm K (forward_pty_and_wait pty c)"
  unfolding forward_pty_and_wait_def by (intro calm_intros)

lemma calm_receive [calm_intros]: "calm K (receive s n)"
  by (rule calm_ends [OF ends_receive [OF subset_refl]]) simp

lemma calm_security [calm_intros]:
  assumes "last_cap ps \<le> 63"
  shows "calm K (apply_security_context ps b)"
proof -
  have "calm K (drop_caps (effective_capabilities ps) (last_cap ps) :: (unit, setup_error) prog)"
    unfolding calm_def using drop_caps_run [OF assms, of "effective_capabilities ps" K, where 'e = setup_error]
    by (metis fst_conv res.distinct(3))
  then show ?thesis unfolding apply_security_context_def by (intro calm_intros)
qed

text \<open>What the kernel promises about the file with its last capability: at most 63, the number of
  bits of the capability masks.\<close>

definition caps_known :: "kernel \<Rightarrow> bool" where
  "caps_known K \<longleftrightarrow> (\<forall>h c n. stream_to_string (k_read K h (path_join (get_path K) ''sys/kernel/cap_last_cap'')) = Inr c \<longrightarrow>
     parse_u64 10 (trim c) = Inr n \<longrightarrow> n \<le> 63)"

lemma read_to_string_Ret:
  "read_to_string p K h = (Ret (Inr c), h') \<Longrightarrow> \<exists>h3. stream_to_string (k_read K h3 p) = Inr c"
  by (auto simp: read_to_string_run Let_def split: sum.splits)

lemma map_sum_id_Inr: "map_sum f id r = Inr x \<longleftrightarrow> r = Inr x"
  by (cases r) auto

lemma lookup_last_cap:
  assumes "caps_known K" "lookup_container c ts m K h = (Ret ps, h')"
  shows "last_cap ps \<le> 63"
proof -
  from assms(2) obtain p h1 where "status p m K h1 = (Ret ps, h')"
    unfolding lookup_container_Ret Let_def by blast
  then have "\<exists>contents h3. parse_u64 10 (trim contents) = Inr (last_cap ps) \<and>
      stream_to_string (k_read K h3 (path_join (get_path K) ''sys/kernel/cap_last_cap'')) = Inr contents"
    unfolding status_def by (auto simp: prog_inv Let_def map_sum_id_Inr dest!: read_to_string_Ret)
  with assms(1) show ?thesis unfolding caps_known_def by blast
qed

lemma calm_of: "ends_in (- {O_panic}) m \<Longrightarrow> calm K m"
  by (erule calm_ends) simp

lemma calm_plain [calm_intros]:
  "calm K socket_pair" "calm K fork" "calm K (has_mount_api c)" "calm K (IdmapHelper_new a b d e)"
  "calm K (lookup_container n ts m)" "calm K stdio_is_tty" "calm K open_ptm" "calm K (eprint s)"
  "calm K (attach_pts f)" "calm K (Cmd_new x as q hm)" "calm K (exec_in_container cm l)"
  "calm K (child_prepare opts)" "calm K (child_mounts opts)" "calm K (child_finish opts s cm g)"
  by (rule calm_of, intro outcome_intros, simp_all)+

lemma calm_namespaces [calm_intros]:
  "calm K setup_pty" "calm K (forP (\<lambda>ns. map_errP Attach_Namespace (ns_apply ns)) nss)"
  "calm K (move_to a b)" "calm K (enter_namespaces p)"
  unfolding setup_pty_def enter_namespaces_def setup_step_def Let_def
  by (rule calm_of, intro outcome_intros ends_in_mono [OF top.mv_plain], auto)+

section \<open>The commands\<close>

lemma calm_child_run [calm_intros]:
  "last_cap (process_status opts) \<le> 63 \<Longrightarrow> calm K (child_run opts)"
  unfolding child_run_def child_enter_def by (intro calm_intros)

lemma child_run_no_value: "child_run opts K h \<noteq> (Ret u, h')"
  using ends_inD [OF ends_child_run [OF subset_refl]] by fastforce

lemma calm_attach_child [calm_intros]:
  "last_cap (process_status opts) \<le> 63 \<Longrightarrow> calm K (attach_child opts)"
  unfolding attach_child_def
  by (intro calm_intros) (auto simp: prog_inv child_run_no_value)

lemma calm_attach_fork [calm_intros]:
  "honest_io K \<Longrightarrow> last_cap ps \<le> 63 \<Longrightarrow> calm K (attach_fork opts ps ih)"
  unfolding attach_fork_def parent_run_def by (intro calm_intros) simp_all

lemma calm_attach [calm_intros]:
  assumes "honest_io K" "caps_known K"
  shows "calm K (attach opts)"
  unfolding attach_def
  by (intro calm_intros assms) (auto simp: prog_inv dest!: lookup_last_cap [OF assms(2)])

lemma calm_enter_container [calm_intros]: "last_cap ps \<le> 63 \<Longrightarrow> calm K (enter_container ps)"
  unfolding enter_container_def by (intro calm_intros)

lemma exec_child_no_value: "exec_child ps x as pty K h \<noteq> (Ret u, h')"
  using ends_inD [OF ends_exec_child [OF subset_refl]] by fastforce

lemma calm_exec_child [calm_intros]: "last_cap ps \<le> 63 \<Longrightarrow> calm K (exec_child ps x as pty)"
  unfolding exec_child_def by (intro calm_intros)

lemma calm_exec_forked [calm_intros]: "last_cap ps \<le> 63 \<Longrightarrow> calm K (exec_forked ps opts pty)"
  unfolding exec_forked_def by (intro calm_intros) (auto simp: prog_inv exec_child_no_value)

lemma calm_exec [calm_intros]:
  assumes "honest_io K" "caps_known K"
  shows "calm K (exec opts)"
  unfolding exec_def
  by (intro calm_intros assms) (auto simp: prog_inv dest!: lookup_last_cap [OF assms(2)])

section \<open>The command line\<close>

lemma ends_set [outcome_intros]:
  "{O_ret, O_err} \<subseteq> S \<Longrightarrow> ends_in S (set_types v st)" "{O_ret, O_err, O_hang} \<subseteq> S \<Longrightarrow> ends_in S (set_user v st)"
  "{O_ret, O_err} \<subseteq> S \<Longrightarrow> ends_in S (set_mode v st)"
  unfolding set_types_def set_user_def set_mode_def by (intro outcome_intros; auto)+

lemma ends_console [outcome_intros]:
  "O_ret \<in> S \<Longrightarrow> ends_in S (eprint_lines ls)" "O_ret \<in> S \<Longrightarrow> ends_in S print_version" "O_ret \<in> S \<Longrightarrow> ends_in S maybe_set_dumpable"
  unfolding eprint_lines_def print_version_def maybe_set_dumpable_def by (intro outcome_intros; simp)+

lemma ends_attach_args [outcome_intros]: "{O_ret, O_err, O_hang} \<subseteq> S \<Longrightarrow> ends_in S (attach_args as st)"
proof (induction as st rule: attach_args.induct)
  case (2 arg args st)
  then have S: "O_ret \<in> S" "O_err \<in> S" "O_hang \<in> S" "insert O_ret S = S" by auto
  show ?case unfolding attach_args.simps(2) by (intro outcome_intros "2.IH") (assumption | simp add: S)+
qed (auto simp: attach_args.simps intro: outcome_intros)

lemma ends_exec_args [outcome_intros]: "{O_ret, O_err, O_hang} \<subseteq> S \<Longrightarrow> ends_in S (exec_args as st)"
proof (induction as st rule: exec_args.induct)
  case (2 arg args st)
  then have S: "O_ret \<in> S" "O_err \<in> S" "O_hang \<in> S" "insert O_ret S = S" by auto
  show ?case unfolding exec_args.simps(2) by (intro outcome_intros "2.IH") (assumption | simp add: S)+
qed (auto simp: exec_args.simps intro: outcome_intros)

lemma calm_dispatch:
  assumes "honest_io K" "caps_known K"
  shows "calm K (dispatch as)"
proof -
  have "calm K (attach_args x y)" "calm K (exec_args x y)" "calm K (eprint_lines ls)" "calm K print_version" for x y ls
    by (rule calm_of, intro outcome_intros, simp)+
  then show ?thesis
    unfolding dispatch_def parse_attach_args_def parse_exec_args_def by (intro calm_intros assms)
qed

lemma ends_main: "ends_in {O_exit, O_exec, O_panic, O_hang} (main args)"
  unfolding main_def run_with_args_def dispatch_def parse_attach_args_def parse_exec_args_def
  by (intro outcome_intros) auto

section \<open>Properties\<close>



end
