(* ===== verification/Host_Process.thy ===== *)
theory Host_Process
  imports Cli
begin

text \<open>
  What the process that the user started does itself. \<open>hosted m\<close>: up to a fork in which the
  process is the child, \<open>m\<close> only makes calls that leave the file system, the mounts and the
  process's own namespaces, root, directory and credentials as they are. The predicate has one
  rule per combinator, and the rule for a fork asks it of the parent's branch only.
\<close>

definition harmless :: "call \<Rightarrow> bool" where
  "harmless c = (case c of
      Open_read _ \<Rightarrow> True | Stat _ \<Rightarrow> True | Read_link _ \<Rightarrow> True | Read _ _ \<Rightarrow> True | Write _ _ \<Rightarrow> True
    | Dup _ \<Rightarrow> True | Close _ \<Rightarrow> True | Pipe \<Rightarrow> True | Poll _ _ \<Rightarrow> True | Socketpair \<Rightarrow> True | Recvmsg _ _ \<Rightarrow> True
    | Fork \<Rightarrow> True | Waitpid _ _ \<Rightarrow> True | Kill _ _ \<Rightarrow> True | Set_dumpable \<Rightarrow> True | Fsopen _ \<Rightarrow> True
    | Isatty _ \<Rightarrow> True | Tcgetattr _ \<Rightarrow> True | Tcsetattr _ _ _ \<Rightarrow> True | Tcgetwinsize _ \<Rightarrow> True | Tcsetwinsize _ _ \<Rightarrow> True
    | Openpt \<Rightarrow> True | Grantpt _ \<Rightarrow> True | Unlockpt _ \<Rightarrow> True
    | Getpwnam _ _ \<Rightarrow> True | Lookup_container _ _ \<Rightarrow> True | Eprint _ \<Rightarrow> True | _ \<Rightarrow> False)"

text \<open>The events of the started process: those before a fork that made it a child.\<close>

definition own_events :: "hist \<Rightarrow> hist" where
  "own_events s = takeWhile (\<lambda>e. e \<noteq> (Fork, Inr 0)) s"

definition hosted :: "('a, 'e) prog \<Rightarrow> bool" where
  "hosted m \<longleftrightarrow> (\<forall>K h. \<exists>s. snd (m K h) = h @ s \<and> list_all (\<lambda>e. harmless (fst e)) (own_events s))"

lemma hostedI: "(\<And>K h. \<exists>s. snd (m K h) = h @ s \<and> list_all (\<lambda>e. harmless (fst e)) (own_events s)) \<Longrightarrow> hosted m"
  by (simp add: hosted_def)

lemma hostedD: "hosted m \<Longrightarrow> m K h = (r, h') \<Longrightarrow> \<exists>s. h' = h @ s \<and> list_all (\<lambda>e. harmless (fst e)) (own_events s)"
  unfolding hosted_def by (metis snd_conv)

lemma own_events_harmless: "list_all (\<lambda>e. harmless (fst e)) s \<Longrightarrow> list_all (\<lambda>e. harmless (fst e)) (own_events s)"
  by (auto simp: own_events_def list_all_iff dest: set_takeWhileD)

lemma own_events_append:
  "list_all (\<lambda>e. harmless (fst e)) (own_events s) \<Longrightarrow> list_all (\<lambda>e. harmless (fst e)) (own_events t) \<Longrightarrow>
   list_all (\<lambda>e. harmless (fst e)) (own_events (s @ t))"
  by (induction s) (auto simp: own_events_def split: if_splits)

named_theorems hosted_intros

lemma hosted_emits: "emits (\<lambda>e. harmless (fst e)) m \<Longrightarrow> hosted m"
  unfolding emits_def hosted_def using own_events_harmless by blast

lemma hosted_ret [hosted_intros]: "hosted (retP x)" and hosted_throw [hosted_intros]: "hosted (throwP e)"
  and hosted_panic [hosted_intros]: "hosted panicP" and hosted_exit [hosted_intros]: "hosted (exitP n)"
  and hosted_ask [hosted_intros]: "hosted (askP q)" and hosted_fromSum [hosted_intros]: "hosted (fromSum r)"
  by (rule hosted_emits, intro emits_intros)+

lemma hosted_bind [hosted_intros]:
  assumes "hosted m" "\<And>x. hosted (f x)"
  shows "hosted (bindP m f)"
proof (rule hostedI)
  fix K h
  obtain r h1 where m: "m K h = (r, h1)" by fastforce
  with assms(1) obtain s where s: "h1 = h @ s" "list_all (\<lambda>e. harmless (fst e)) (own_events s)" by (blast dest: hostedD)
  show "\<exists>s. snd (bindP m f K h) = h @ s \<and> list_all (\<lambda>e. harmless (fst e)) (own_events s)"
  proof (cases "\<exists>x. r = Ret x")
    case True
    then obtain x where x: "r = Ret x" by blast
    obtain r2 h2 where f: "f x K h1 = (r2, h2)" by fastforce
    with assms(2) obtain t where "h2 = h1 @ t" "list_all (\<lambda>e. harmless (fst e)) (own_events t)" by (blast dest: hostedD)
    with m x f s own_events_append show ?thesis by (auto simp: bindP_run)
  next
    case False
    with m s show ?thesis by (cases r) (auto simp: bindP_run)
  qed
qed

lemma hosted_map_err [hosted_intros]: "hosted m \<Longrightarrow> hosted (map_errP g m)"
  by (simp add: hosted_def snd_map_errP)

lemma hosted_attempt [hosted_intros]: "hosted m \<Longrightarrow> hosted (attemptP m)"
  by (simp add: hosted_def snd_attemptP)

lemma hosted_finally [hosted_intros]:
  assumes "hosted m" "hosted d"
  shows "hosted (finallyP m d)"
proof (rule hostedI)
  fix K h
  obtain r h1 where m: "m K h = (r, h1)" by fastforce
  with assms(1) obtain s where s: "h1 = h @ s" "list_all (\<lambda>e. harmless (fst e)) (own_events s)" by (blast dest: hostedD)
  obtain r2 h2 where d: "d K h1 = (r2, h2)" by fastforce
  with assms(2) obtain t where "h2 = h1 @ t" "list_all (\<lambda>e. harmless (fst e)) (own_events t)" by (blast dest: hostedD)
  with m d s own_events_append show "\<exists>s. snd (finallyP m d K h) = h @ s \<and> list_all (\<lambda>e. harmless (fst e)) (own_events s)"
    by (cases r) (auto simp: finallyP_run)
qed

lemma hosted_if [hosted_intros]: "(b \<Longrightarrow> hosted m) \<Longrightarrow> (\<not> b \<Longrightarrow> hosted n) \<Longrightarrow> hosted (if b then m else n)"
  by simp

lemma hosted_sum [hosted_intros]: "(\<And>x. hosted (f x)) \<Longrightarrow> (\<And>y. hosted (g y)) \<Longrightarrow> hosted (case_sum f g r)"
  by (cases r) auto

lemma hosted_option [hosted_intros]: "hosted m \<Longrightarrow> (\<And>y. hosted (g y)) \<Longrightarrow> hosted (case_option m g r)"
  by (cases r) auto

lemma hosted_prod [hosted_intros]: "(\<And>x y. hosted (f x y)) \<Longrightarrow> hosted (case_prod f r)"
  by (cases r) auto

lemma hosted_list [hosted_intros]: "hosted m \<Longrightarrow> (\<And>x xs. hosted (g x xs)) \<Longrightarrow> hosted (case_list m g r)"
  by (cases r) auto

lemma hosted_Let [hosted_intros]: "(\<And>x. hosted (f x)) \<Longrightarrow> hosted (Let y f)"
  by simp

text \<open>A fork: whatever the child does is not the started process any more.\<close>

lemma hosted_fork [hosted_intros]:
  assumes "\<And>p. hosted (f (ParentOf p))" "emits (\<lambda>_. True) (f Fork_Child)"
  shows "hosted (bindP (map_errP g fork) f)"
proof (rule hostedI)
  fix K h
  show "\<exists>s. snd (bindP (map_errP g fork) f K h) = h @ s \<and> list_all (\<lambda>e. harmless (fst e)) (own_events s)"
  proof (cases "k_call K h Fork")
    case (Inl e)
    then show ?thesis by (simp add: bindP_run map_errP_run fork_run own_events_def harmless_def)
  next
    case (Inr n)
    show ?thesis
    proof (cases "n = 0")
      case True
      from assms(2) obtain t where "snd (f Fork_Child K (h @ [(Fork, Inr 0)])) = (h @ [(Fork, Inr 0)]) @ t"
        unfolding emits_def by blast
      with Inr True show ?thesis by (simp add: bindP_run map_errP_run fork_run own_events_def)
    next
      case False
      obtain r h' where r: "f (ParentOf (int n)) K (h @ [(Fork, Inr n)]) = (r, h')" by fastforce
      from hostedD [OF assms(1) this] obtain t where t: "h' = (h @ [(Fork, Inr n)]) @ t"
        "list_all (\<lambda>e. harmless (fst e)) (own_events t)" by blast
      with own_events_append [of "[(Fork, Inr n)]" t] False have "list_all (\<lambda>e. harmless (fst e)) (own_events ((Fork, Inr n) # t))"
        by (simp add: own_events_def harmless_def)
      with Inr False r t show ?thesis by (simp add: bindP_run map_errP_run fork_run)
    qed
  qed
qed

section \<open>The parts of the started process\<close>

abbreviation own_call :: "event \<Rightarrow> bool" where
  "own_call e \<equiv> harmless (fst e)"

lemma own_fp_write [emits_intros]: "emits own_call (fp_write p)"
  unfolding fp_write_def by (intro emits_intros) (simp add: harmless_def)

lemma own_fp_service [emits_intros]: "emits own_call (fp_service p)"
  unfolding fp_service_def fp_read_def
  by (cases "fp_state p"; simp; intro emits_intros; simp add: harmless_def)

lemma own_service [emits_intros]: "emits own_call (service ps rs)"
  by (induction ps rs rule: service.induct) (auto intro!: emits_intros)

lemma own_parent [emits_intros]:
  "emits own_call (wait_for_child c)" "emits own_call (forward_pty_and_wait pty c)" "emits own_call (parent_run c s)"
  "emits own_call stdio_is_tty" "emits own_call open_ptm" "emits own_call (has_mount_api mc)"
  "emits own_call (IdmapHelper_drop ih)" "emits own_call (eprint msg)"
  unfolding parent_run_def receive_def receive_step_def wait_for_child_def wait_step_def
    forward_pty_and_wait_def forward_def RawTty_new_def RawTty_drop_def forward_files_def dup_fd_def shovel_def
    shovel_init_def shovel_step_def update_winsize_def get_winsize_def set_winsize_def isatty_def
    stdio_is_tty_def open_ptm_def has_mount_api_def probe_mount_api_def IdmapHelper_drop_def eprint_def
  by (intro emits_intros; simp add: harmless_def)+

lemma own_lookup [emits_intros]: "emits own_call (lookup_container c ts m)"
  by (rule emits_mono [OF emits_lookup_container])
    (auto simp: is_read_only_def is_lookup_event_def harmless_def split: call.splits)

lemma own_console: "emits console_event m \<Longrightarrow> emits own_call m"
  by (erule emits_mono) (auto simp: console_event_def harmless_def split: call.splits)

lemma own_arguments [hosted_intros]:
  "hosted (attach_args as st)" "hosted (exec_args as st)" "hosted (eprint_lines ls)"
  by (rule hosted_emits, rule own_console, rule emits_intros)+

lemma own_prints [hosted_intros]: "hosted print_version" "hosted maybe_set_dumpable"
  unfolding print_version_def maybe_set_dumpable_def
  by (rule hosted_emits, intro emits_intros; simp add: harmless_def)+

lemma hosted_calls [hosted_intros]:
  "hosted (wait_for_child c)" "hosted (forward_pty_and_wait pty c)" "hosted (parent_run c s)"
  "hosted stdio_is_tty" "hosted open_ptm" "hosted (has_mount_api mc)" "hosted (IdmapHelper_drop ih)"
  "hosted (eprint msg)" "hosted (lookup_container cn ts md)"
  by (intro hosted_emits emits_intros)+

lemma hosted_call [hosted_intros]: "harmless c \<Longrightarrow> hosted (call c)"
  by (intro hosted_emits emits_intros) simp

lemma hosted_query [hosted_intros]: "harmless c \<Longrightarrow> hosted (query c q)"
  by (intro hosted_emits emits_intros) simp

lemma hosted_try [hosted_intros]: "hosted m \<Longrightarrow> hosted (tryP g m)"
  unfolding tryP_def by (intro hosted_intros)

text \<open>The children only have to be programs that extend the history.\<close>

lemma any_mono: "emits P m \<Longrightarrow> emits (\<lambda>_. True) m"
  by (erule emits_mono) simp

lemma any_helper_child: "emits (\<lambda>_. True) (helper_child r w a b c d)"
  unfolding helper_child_def setup_userns_def eprint_def sys_exit_def sleep_forever_def
  by (intro emits_intros) simp_all

lemma any_attach_child: "emits (\<lambda>_. True) (attach_child opts)"
  unfolding attach_child_def eprint_def
  by (intro emits_intros any_mono [OF no_reap_child]) simp_all

lemma any_ns_apply: "emits (\<lambda>_. True) (ns_apply ns)" and any_ns_open: "emits (\<lambda>_. True) (ns_open k p)"
  by (rule any_mono [OF emits_ns_apply] any_mono [OF emits_ns_open])+

lemma any_enter_container: "emits (\<lambda>_. True) (enter_container ps)"
  unfolding enter_container_def enter_namespaces_def setup_step_def is_same_def Let_def
  by (intro emits_intros any_mono [OF top.mv_emits] any_mono [OF emits_supported] any_ns_open any_ns_apply
      any_mono [OF emits_security_context]) simp_all

lemma any_exec_child: "emits (\<lambda>_. True) (exec_forked ps opts pty)"
  unfolding exec_forked_def exec_child_def exec_in_container_def pre_exec_def exec_command_def read_container_path_def
    eprint_def Let_def
  by (intro emits_intros any_mono [OF emits_attach_pts] any_mono [OF emits_Cmd_new] any_enter_container) simp_all

lemma hosted_helper [hosted_intros]: "hosted (IdmapHelper_new a b c d)"
  unfolding IdmapHelper_new_def helper_parent_def
  by (auto intro!: hosted_intros any_helper_child simp: harmless_def Let_def)

lemma hosted_attach_fork [hosted_intros]: "hosted (attach_fork opts ps ih)"
  unfolding attach_fork_def socket_pair_def
  by (auto intro!: hosted_intros emits_intros any_attach_child simp: harmless_def)

lemma hosted_attach [hosted_intros]: "hosted (attach opts)"
  unfolding attach_def by (intro hosted_intros)

lemma hosted_exec [hosted_intros]: "hosted (exec opts)"
  unfolding exec_def by (auto intro!: hosted_intros any_exec_child split: option.split)

lemma hosted_dispatch [hosted_intros]: "hosted (dispatch args)"
  unfolding dispatch_def parse_attach_args_def parse_exec_args_def case_prod_beta Let_def by (intro hosted_intros)

section \<open>Properties\<close>

text \<open>C10: The process that the user started leaves the host as it is: whatever the arguments and
  the answers of the kernel, all it does before (or without) a fork that makes it a child
  is reading files, moving bytes over descriptors it has, terminal settings, printing,
  and starting, signalling and awaiting processes. It enters and makes no namespace, mounts
  nothing, creates, writes and opens no file for writing, keeps its credentials, directory and
  root, and executes nothing.\<close>

theorem started_process_harmless:
  "\<exists>s. snd ((main args :: (unit, 'e) prog) K h) = h @ s \<and> list_all (\<lambda>e. harmless (fst e)) (own_events s)"
proof -
  have "hosted (main args :: (unit, 'e) prog)"
    unfolding main_def run_with_args_def by (intro hosted_intros)
  then show ?thesis unfolding hosted_def by blast
qed

end
