(* ===== verification/Test_Utils.thy ===== *)
theory Test_Utils
  imports Idmap_Helper
begin

text \<open>
  \<open>test_utils.rs\<close>: the harness of the tests. A closure runs in a forked child inside fresh
  user and mount namespaces; the parent polls for it with a time limit, escalates from
  \<open>SIGTERM\<close> to \<open>SIGKILL\<close>, and turns the child's exit status and the panic message in the pipe
  into its own verdict.

  A panic with a message is the error outcome here: \<open>Err m\<close> of a function that is not meant
  to fail is the panic with the message \<open>m\<close>; inside \<open>catch_unwind\<close> the error is the payload,
  \<open>None\<close> when it is not a string. Times are nanoseconds of the monotonic clock.
\<close>

section \<open>Waiting with a time limit\<close>

definition instant_now :: "(nat, 'e) prog" where
  "instant_now = bindP (query Now (\<lambda>K h. Inr (k_now K h))) (\<lambda>r. case r of Inl e \<Rightarrow> retP 0 | Inr t \<Rightarrow> retP t)"

text \<open>\<open>Instant::elapsed\<close> saturates at zero.\<close>

definition elapsed :: "nat \<Rightarrow> (nat, 'e) prog" where
  "elapsed since = bindP instant_now (\<lambda>t. retP (t - since))"

definition GRACE_PERIOD :: nat where "GRACE_PERIOD = 2 * 10 ^ 9"
definition POLL_INTERVAL :: nat where "POLL_INTERVAL = 100 * 10 ^ 6"

record wait_state =
  sent_sigterm :: bool
  sigterm_time :: "nat option"

definition panic_msg :: "(kernel \<Rightarrow> string) \<Rightarrow> ('a, string) prog" where
  "panic_msg msg = bindP (askP (\<lambda>K h. msg K)) throwP"

text \<open>\<open>SIGKILL\<close>, then the blocking wait that reaps the child; always ends in a panic.\<close>

definition force_kill :: "pid \<Rightarrow> nat \<Rightarrow> ('a, string) prog" where
  "force_kill child el =
     bindP (call (Kill child SIGKILL)) (\<lambda>r.
     bindP (case r of
         Inl e \<Rightarrow> if e \<noteq> ESRCH
           then panic_msg (\<lambda>K. ''Test timeout: failed to send SIGKILL to child '' @ show_int child @ '': '' @ k_strerror K e)
           else retP ()
       | Inr _ \<Rightarrow> retP ()) (\<lambda>_.
     bindP (query (Waitpid child False) (\<lambda>K h. k_wait K h child)) (\<lambda>w. case w of
         Inr _ \<Rightarrow> panic_msg (\<lambda>K. ''Test timed out after '' @ k_show_secs K el @ '' seconds (child PID: '' @ show_int child @ '')'')
       | Inl e \<Rightarrow> panic_msg (\<lambda>K. ''Test timed out after '' @ k_show_secs K el @
           '' seconds and waitpid failed after SIGKILL: '' @ k_strerror K e @ '' (child PID: '' @ show_int child @ '')''))))"

definition escalate :: "pid \<Rightarrow> nat \<Rightarrow> wait_state \<Rightarrow> (wait_state, string) prog" where
  "escalate child el s =
     (if \<not> sent_sigterm s then
        bindP (call (Kill child SIGTERM)) (\<lambda>r. case r of
          Inl e \<Rightarrow> panic_msg (\<lambda>K. ''Test timeout: failed to send SIGTERM to child '' @ show_int child @ '': '' @ k_strerror K e)
        | Inr _ \<Rightarrow> bindP instant_now (\<lambda>t. retP \<lparr>sent_sigterm = True, sigterm_time = Some t\<rparr>))
      else (case sigterm_time s of
          None \<Rightarrow> retP s
        | Some t \<Rightarrow> bindP (elapsed t) (\<lambda>since. if GRACE_PERIOD \<le> since then force_kill child el else retP s)))"

definition wait_timeout_step :: "pid \<Rightarrow> nat \<Rightarrow> nat \<Rightarrow> wait_state \<Rightarrow> (wait_state + wait_status, string) prog" where
  "wait_timeout_step child timeout start s =
     bindP (query (Waitpid_nohang child) (\<lambda>K h. k_wait K h child)) (\<lambda>r. case r of
         Inr None \<Rightarrow>
           bindP (elapsed start) (\<lambda>el.
           bindP (if timeout \<le> el then escalate child el s else retP s) (\<lambda>s'.
           bindP (call (Sleep_nanos POLL_INTERVAL)) (\<lambda>_. retP (Inl s'))))
       | Inr (Some st) \<Rightarrow> retP (Inr st)
       | Inl e \<Rightarrow> panic_msg (\<lambda>K. ''waitpid failed: '' @ k_strerror K e))"

definition wait_child_with_timeout :: "pid \<Rightarrow> nat \<Rightarrow> (wait_status, string) prog" where
  "wait_child_with_timeout child timeout =
     bindP instant_now (\<lambda>start.
     loopP (wait_timeout_step child timeout start) \<lparr>sent_sigterm = False, sigterm_time = None\<rparr>)"

section \<open>A closure in a user namespace\<close>

text \<open>\<open>Result::expect\<close>: the panic message is the given one and the error's debug text.\<close>

definition expectP :: "string \<Rightarrow> (io_error + 'a, string option) prog \<Rightarrow> ('a, string option) prog" where
  "expectP msg m = bindP m (\<lambda>r. case r of
      Inr x \<Rightarrow> retP x
    | Inl e \<Rightarrow> bindP (askP (\<lambda>K h. Some (msg @ '': '' @ k_debug_error K e))) throwP)"

definition userns_map :: "u32 \<Rightarrow> string" where
  "userns_map i = ''0 '' @ show_nat (unat i) @ '' 1'' @ [NL]"

definition userns_test :: "(unit, string option) prog \<Rightarrow> (unit, string option) prog" where
  "userns_test test_fn =
     bindP (askP (\<lambda>K h. (k_uid K h, k_gid K h))) (\<lambda>(uid, gid).
     bindP (expectP ''Failed to create user/mount namespace'' (call Unshare_newuser_newns)) (\<lambda>_.
     bindP (expectP ''Failed to write setgroups'' (call (Fs_write ''/proc/self/setgroups'' ''deny''))) (\<lambda>_.
     bindP (expectP ''Failed to write uid_map'' (call (Fs_write ''/proc/self/uid_map'' (userns_map uid)))) (\<lambda>_.
     bindP (expectP ''Failed to write gid_map'' (call (Fs_write ''/proc/self/gid_map'' (userns_map gid)))) (\<lambda>_.
     test_fn)))))"

definition panic_report :: "string option \<Rightarrow> string option \<Rightarrow> string" where
  "panic_report payload backtrace =
     (let panic_msg = (case payload of Some s \<Rightarrow> s | None \<Rightarrow> ''Box<dyn Any>'') in
      case backtrace of
        Some b \<Rightarrow> ''Panic: '' @ panic_msg @ [NL, NL] @ ''Backtrace:'' @ [NL] @ b
      | None \<Rightarrow> ''Panic: '' @ panic_msg)"

definition userns_child :: "fd \<Rightarrow> fd \<Rightarrow> (unit, string option) prog \<Rightarrow> (unit, string) prog" where
  "userns_child read_fd write_fd test_fn =
     bindP (call (Close read_fd)) (\<lambda>_.
     bindP (attemptP (userns_test test_fn)) (\<lambda>result. case result of
         Inr _ \<Rightarrow> bindP (call (Close write_fd)) (\<lambda>_. sys_exit 0)
       | Inl payload \<Rightarrow>
           bindP (askP (\<lambda>K h. panic_report payload (k_backtrace K h))) (\<lambda>full_message.
           bindP (call (Write write_fd full_message)) (\<lambda>_.
           bindP (call (Close write_fd)) (\<lambda>_. sys_exit 1)))))"

definition with_message :: "string \<Rightarrow> string \<Rightarrow> string" where
  "with_message head msg = (if msg \<noteq> [] then head @ '':'' @ [NL] @ msg else head)"

definition userns_parent :: "fd \<Rightarrow> fd \<Rightarrow> pid \<Rightarrow> (unit, string) prog" where
  "userns_parent read_fd write_fd child =
     bindP (call (Close write_fd)) (\<lambda>_.
     bindP (wait_child_with_timeout child (30 * 10 ^ 9)) (\<lambda>wait_result.
     bindP (query (Read_to_end read_fd) (\<lambda>K h. Inr (k_fdstream K h read_fd))) (\<lambda>r.
     let panic_message = (case r of Inr (data, tail) \<Rightarrow> from_utf8_lossy data | Inl e \<Rightarrow> []) in
     (case exit_status wait_result of
        Some n \<Rightarrow>
          if n = 0 then retP ()
          else throwP (with_message (''Test failed with exit code '' @ show_int n) panic_message)
      | None \<Rightarrow>
          panic_msg (\<lambda>K. with_message (''Test process terminated abnormally: '' @ k_debug_status K wait_result) panic_message)))))"

definition run_in_userns :: "(unit, string option) prog \<Rightarrow> (unit, string) prog" where
  "run_in_userns test_fn =
     bindP (query Pipe (\<lambda>K h. k_pair K h Pipe)) (\<lambda>p. case p of
       Inl e \<Rightarrow> panic_msg (\<lambda>K. ''Failed to create pipe for panic messages: '' @ k_debug_error K e)
     | Inr (read_fd, write_fd) \<Rightarrow>
         bindP (attemptP fork) (\<lambda>f. case f of
           Inr Fork_Child \<Rightarrow> userns_child read_fd write_fd test_fn
         | Inr (ParentOf child) \<Rightarrow> userns_parent read_fd write_fd child
         | Inl e \<Rightarrow>
             bindP (call (Close read_fd)) (\<lambda>_.
             bindP (call (Close write_fd)) (\<lambda>_.
             panic_msg (\<lambda>K. ''Failed to fork for user namespace: '' @ k_strerror K e)))))"

section \<open>Rules\<close>

lemma instant_now_run [prog_simps]: "instant_now K h = (Ret (k_now K h), h @ [(Now, Inr 0)])"
  by (simp add: instant_now_def prog_simps)

lemma elapsed_run [prog_simps]: "elapsed t K h = (Ret (k_now K h - t), h @ [(Now, Inr 0)])"
  by (simp add: elapsed_def prog_simps)

lemma clock_inv [prog_inv]:
  "instant_now K h = (r, h') \<longleftrightarrow> r = Ret (k_now K h) \<and> h' = h @ [(Now, Inr 0)]"
  "elapsed t K h = (q, h') \<longleftrightarrow> q = Ret (k_now K h - t) \<and> h' = h @ [(Now, Inr 0)]"
  by (auto simp: prog_simps)

lemma panic_msg_run [prog_simps]: "panic_msg msg K h = (Err (msg K), h)"
  by (simp add: panic_msg_def prog_simps)

lemma panic_msg_inv [prog_inv]: "panic_msg msg K h = (r, h') \<longleftrightarrow> r = Err (msg K) \<and> h' = h"
  by (auto simp: prog_simps)

lemma ends_instant_now [outcome_intros]: "O_ret \<in> S \<Longrightarrow> ends_in S instant_now"
  by (simp add: ends_in_def prog_simps)

lemma ends_elapsed [outcome_intros]: "O_ret \<in> S \<Longrightarrow> ends_in S (elapsed t)"
  by (simp add: ends_in_def prog_simps)

lemma ends_panic_msg [outcome_intros]: "O_err \<in> S \<Longrightarrow> ends_in S (panic_msg m)"
  by (simp add: ends_in_def prog_simps)

lemma ends_force_kill [outcome_intros]: "{O_ret, O_err} \<subseteq> S \<Longrightarrow> ends_in S (force_kill c e)"
  unfolding force_kill_def by (intro outcome_intros) auto

lemma ends_escalate [outcome_intros]: "{O_ret, O_err} \<subseteq> S \<Longrightarrow> ends_in S (escalate c e s)"
  unfolding escalate_def by (intro outcome_intros) auto

lemma ends_wait_timeout_step [outcome_intros]: "{O_ret, O_err} \<subseteq> S \<Longrightarrow> ends_in S (wait_timeout_step c t b s)"
  unfolding wait_timeout_step_def by (intro outcome_intros) auto

lemma ends_wait_child [outcome_intros]: "{O_ret, O_err, O_hang} \<subseteq> S \<Longrightarrow> ends_in S (wait_child_with_timeout c t)"
  unfolding wait_child_with_timeout_def by (intro outcome_intros) auto

section \<open>The rounds of the wait\<close>

text \<open>The clock does not go back, and a sleep lasts at least as long as it was asked for.\<close>

definition clock_ok :: "kernel \<Rightarrow> bool" where
  "clock_ok K \<longleftrightarrow> (\<forall>h s. k_now K h \<le> k_now K (h @ s)) \<and>
     (\<forall>h d r. k_now K h + d \<le> k_now K (h @ [(Sleep_nanos d, r)]))"

lemma clock_mono: "clock_ok K \<Longrightarrow> h2 = h @ s \<Longrightarrow> k_now K h \<le> k_now K h2"
  by (simp add: clock_ok_def)

lemma clock_sleep:
  assumes "clock_ok K" "h2 = h @ s @ [(Sleep_nanos d, r)]"
  shows "k_now K h + d \<le> k_now K h2"
proof -
  have "k_now K h \<le> k_now K (h @ s)" by (rule clock_mono [OF assms(1) refl])
  also have "k_now K (h @ s) + d \<le> k_now K ((h @ s) @ [(Sleep_nanos d, r)])" using assms(1) unfolding clock_ok_def by blast
  finally show ?thesis using assms(2) by simp
qed

abbreviation polled :: "pid \<Rightarrow> hist \<Rightarrow> hist" where
  "polled child h \<equiv> h @ [(Waitpid_nohang child, Inr 0)]"

text \<open>What a round that goes on has done: it slept; before that it was too early for a signal,
  or it sent \<open>SIGTERM\<close>, or it was still in the grace period.\<close>

definition going_on :: "kernel \<Rightarrow> pid \<Rightarrow> nat \<Rightarrow> nat \<Rightarrow> wait_state \<Rightarrow> hist \<Rightarrow> wait_state \<Rightarrow> hist \<Rightarrow> bool" where
  "going_on K child timeout start s h s' mid \<longleftrightarrow>
     (k_now K (polled child h) - start < timeout \<and> s' = s \<and> mid = []) \<or>
     (timeout \<le> k_now K (polled child h) - start \<and> \<not> sent_sigterm s \<and>
        (\<exists>n. mid = [(Kill child SIGTERM, Inr n), (Now, Inr 0)] \<and>
          s' = \<lparr>sent_sigterm = True, sigterm_time = Some (k_now K (polled child h @ [(Now, Inr 0), (Kill child SIGTERM, Inr n)]))\<rparr>)) \<or>
     (timeout \<le> k_now K (polled child h) - start \<and> sent_sigterm s \<and> s' = s \<and>
        (sigterm_time s = None \<and> mid = [] \<or>
         (\<exists>t. sigterm_time s = Some t \<and> mid = [(Now, Inr 0)] \<and> k_now K (polled child h @ [(Now, Inr 0)]) - t < GRACE_PERIOD)))"

lemma force_kill_inv [prog_inv]:
  "force_kill c e K h = (r, h') \<longleftrightarrow> (\<exists>q. q = k_call K h (Kill c SIGKILL) \<and>
     (\<exists>m. r = Err m) \<and> r = fst (force_kill c e K h) \<and>
     h' = h @ (Kill c SIGKILL, q) # (if (\<exists>e. q = Inl e \<and> e \<noteq> ESRCH) then []
       else [(Waitpid c False, map_sum id (\<lambda>_. 0) (k_wait K (h @ [(Kill c SIGKILL, q)]) c))]))"
  by (auto simp: force_kill_def prog_simps split: sum.splits)

lemma escalate_Ret:
  "escalate c e s K h = (Ret s', h') \<longleftrightarrow>
     (\<not> sent_sigterm s \<and> (\<exists>n. k_call K h (Kill c SIGTERM) = Inr n \<and> h' = h @ [(Kill c SIGTERM, Inr n), (Now, Inr 0)] \<and>
        s' = \<lparr>sent_sigterm = True, sigterm_time = Some (k_now K (h @ [(Kill c SIGTERM, Inr n)]))\<rparr>)) \<or>
     (sent_sigterm s \<and> s' = s \<and> (sigterm_time s = None \<and> h' = h \<or>
        (\<exists>t. sigterm_time s = Some t \<and> h' = h @ [(Now, Inr 0)] \<and> k_now K h - t < GRACE_PERIOD)))"
  by (auto simp: escalate_def prog_simps prog_inv not_le split: sum.splits option.splits)

lemma wait_step_continues:
  assumes "wait_timeout_step child timeout start s K h = (Ret (Inl s'), h')"
  shows "\<exists>mid z. h' = h @ [(Waitpid_nohang child, Inr 0), (Now, Inr 0)] @ mid @ [(Sleep_nanos POLL_INTERVAL, z)] \<and>
    going_on K child timeout start s h s' mid"
  using assms unfolding wait_timeout_step_def going_on_def
  by (auto simp: prog_inv escalate_Ret split: sum.splits option.splits if_splits)

definition gap :: "nat \<Rightarrow> nat" where
  "gap a = (a + (POLL_INTERVAL - 1)) div POLL_INTERVAL"

lemma gap_mono: "a \<le> b \<Longrightarrow> gap a \<le> gap b"
  by (simp add: gap_def div_le_mono)

lemma gap_less:
  assumes "0 < a" "b + POLL_INTERVAL \<le> a \<or> b = 0"
  shows "gap b < gap a"
proof -
  have "gap b < gap (b + POLL_INTERVAL)" by (simp add: gap_def POLL_INTERVAL_def)
  moreover have "gap 0 < gap 1" by (simp add: gap_def POLL_INTERVAL_def)
  ultimately show ?thesis
    using assms gap_mono [of "b + POLL_INTERVAL" a] gap_mono [of 1 a] by auto
qed

lemma gap_bounds: "gap a \<le> a div POLL_INTERVAL + 1" "gap GRACE_PERIOD = 20"
  by (simp_all add: gap_def POLL_INTERVAL_def GRACE_PERIOD_def)

definition wait_inv :: "kernel \<Rightarrow> nat \<Rightarrow> nat \<Rightarrow> wait_state \<Rightarrow> hist \<Rightarrow> bool" where
  "wait_inv K timeout start s h \<longleftrightarrow> start \<le> k_now K h \<and>
     (sent_sigterm s \<longrightarrow> sigterm_time s \<noteq> None \<and> start + timeout \<le> k_now K h)"

definition rounds_left :: "kernel \<Rightarrow> nat \<Rightarrow> nat \<Rightarrow> wait_state \<Rightarrow> hist \<Rightarrow> nat" where
  "rounds_left K timeout start s h =
     (if sent_sigterm s then gap (the (sigterm_time s) + GRACE_PERIOD - k_now K h)
      else gap (start + timeout - k_now K h) + 21)"

lemma wait_round_decreases:
  assumes ok: "clock_ok K" and inv: "wait_inv K timeout start s h"
    and run: "wait_timeout_step child timeout start s K h = (Ret (Inl s'), h')"
  shows "wait_inv K timeout start s' h' \<and> rounds_left K timeout start s' h' < rounds_left K timeout start s h"
proof -
  from wait_step_continues [OF run] obtain mid z where
    h': "h' = h @ [(Waitpid_nohang child, Inr 0), (Now, Inr 0)] @ mid @ [(Sleep_nanos POLL_INTERVAL, z)]" and
    g: "going_on K child timeout start s h s' mid" by blast
  let ?p = "polled child h"
  have p: "k_now K h \<le> k_now K ?p" and pn: "k_now K ?p \<le> k_now K (?p @ [(Now, Inr 0)])"
    by (rule clock_mono [OF ok refl])+
  have z: "k_now K ?p + POLL_INTERVAL \<le> k_now K h'" "k_now K (?p @ [(Now, Inr 0)]) + POLL_INTERVAL \<le> k_now K h'"
    using clock_sleep [OF ok, of h' ?p "(Now, Inr 0) # mid" POLL_INTERVAL z]
      clock_sleep [OF ok, of h' "?p @ [(Now, Inr 0)]" mid POLL_INTERVAL z] h' by simp_all
  from g [unfolded going_on_def] consider
    (early) "k_now K ?p - start < timeout" "s' = s" "mid = []"
  | (killed) n where "timeout \<le> k_now K ?p - start" "\<not> sent_sigterm s" "mid = [(Kill child SIGTERM, Inr n), (Now, Inr 0)]"
      "s' = \<lparr>sent_sigterm = True, sigterm_time = Some (k_now K (?p @ [(Now, Inr 0), (Kill child SIGTERM, Inr n)]))\<rparr>"
  | (grace) t where "timeout \<le> k_now K ?p - start" "sent_sigterm s" "s' = s" "sigterm_time s = Some t"
      "k_now K (?p @ [(Now, Inr 0)]) - t < GRACE_PERIOD"
    using inv by (auto simp: wait_inv_def)
  then show ?thesis
  proof cases
    case early
    with inv p have "\<not> sent_sigterm s" by (auto simp: wait_inv_def)
    with early inv p z show ?thesis
      by (auto simp: wait_inv_def rounds_left_def intro!: gap_less)
  next
    case killed
    let ?t = "k_now K (?p @ [(Now, Inr 0), (Kill child SIGTERM, Inr n)])"
    have "?t + POLL_INTERVAL \<le> k_now K h'"
      using clock_sleep [OF ok, of h' "?p @ [(Now, Inr 0), (Kill child SIGTERM, Inr n)]" "[(Now, Inr 0)]" POLL_INTERVAL z] h' killed
      by simp
    then have "gap (?t + GRACE_PERIOD - k_now K h') \<le> 20"
      using gap_mono [of "?t + GRACE_PERIOD - k_now K h'" GRACE_PERIOD] gap_bounds(2) by simp
    with killed inv p z show ?thesis by (auto simp: wait_inv_def rounds_left_def)
  next
    case grace
    with inv p pn z show ?thesis
      by (auto simp: wait_inv_def rounds_left_def intro!: gap_less)
  qed
qed

lemma wait_step_one_sleep:
  assumes "wait_timeout_step child timeout start s K h = (r, h')"
  shows "\<exists>t. h' = h @ t \<and> length (filter (\<lambda>e. fst e = Sleep_nanos POLL_INTERVAL) t) \<le> 1"
  using assms unfolding wait_timeout_step_def
  by (cases r) (auto simp: prog_inv escalate_def split: sum.splits option.splits if_splits)

lemma wait_loop_fuel:
  assumes ok: "clock_ok K" and h1: "start \<le> k_now K h1"
  shows "\<exists>r. loop_fuel (timeout div POLL_INTERVAL + 23) (wait_timeout_step child timeout start) K
    \<lparr>sent_sigterm = False, sigterm_time = None\<rparr> h1 = Some r"
proof (rule loop_fuel_measure [where I = "wait_inv K timeout start" and f = "rounds_left K timeout start"])
  show "wait_inv K timeout start \<lparr>sent_sigterm = False, sigterm_time = None\<rparr> h1"
    using h1 by (simp add: wait_inv_def)
  have "gap (start + timeout - k_now K h1) \<le> timeout div POLL_INTERVAL + 1"
    using gap_mono [of "start + timeout - k_now K h1" timeout] gap_bounds(1) [of timeout] h1 by linarith
  then show "rounds_left K timeout start \<lparr>sent_sigterm = False, sigterm_time = None\<rparr> h1 < timeout div POLL_INTERVAL + 23"
    by (simp add: rounds_left_def)
qed (use wait_round_decreases [OF ok] in blast)

section \<open>Signals\<close>

definition signals :: "hist \<Rightarrow> (pid \<times> sig) list" where
  "signals s = List.map_filter (\<lambda>e. case fst e of Kill p g \<Rightarrow> Some (p, g) | _ \<Rightarrow> None) s"

lemma signals_simps [simp]:
  "signals [] = []" "signals (s @ t) = signals s @ signals t"
  "signals (e # s) = (case fst e of Kill p g \<Rightarrow> (p, g) # signals s | _ \<Rightarrow> signals s)"
  by (simp_all add: signals_def List.map_filter_def split: call.split)

text \<open>Where the wait is: nothing sent, or \<open>SIGTERM\<close> sent after the time limit.\<close>

definition wait_phase :: "kernel \<Rightarrow> pid \<Rightarrow> nat \<Rightarrow> hist \<Rightarrow> wait_state \<Rightarrow> hist \<Rightarrow> bool" where
  "wait_phase K child timeout h s t \<longleftrightarrow>
     (if sent_sigterm s
      then (\<exists>a n b ts. t = a @ (Kill child SIGTERM, Inr n) # b \<and> signals a = [] \<and> signals b = [] \<and>
        k_now K h + timeout \<le> k_now K (h @ a) \<and> sigterm_time s = Some ts \<and> k_now K (h @ a) \<le> ts)
      else signals t = [])"

lemma wait_phase_step:
  assumes ok: "clock_ok K" and ph: "wait_phase K child timeout h s t" and start: "start = k_now K h"
    and run: "wait_timeout_step child timeout start s K (h @ t) = (Ret (Inl s'), h')"
  shows "\<exists>t'. h' = h @ t' \<and> wait_phase K child timeout h s' t'"
proof -
  from wait_step_continues [OF run] obtain mid z where
    h': "h' = h @ t @ [(Waitpid_nohang child, Inr 0), (Now, Inr 0)] @ mid @ [(Sleep_nanos POLL_INTERVAL, z)]" and
    g: "going_on K child timeout start s (h @ t) s' mid" by auto
  show ?thesis
  proof (cases "s' = s")
    case True
    with g have "signals mid = []" by (auto simp: going_on_def)
    with True ph h' show ?thesis
      by (intro exI [of _ "t @ [(Waitpid_nohang child, Inr 0), (Now, Inr 0)] @ mid @ [(Sleep_nanos POLL_INTERVAL, z)]"])
        (fastforce simp: wait_phase_def split: if_splits)
  next
    case False
    let ?a = "t @ [(Waitpid_nohang child, Inr 0), (Now, Inr 0)]"
    from False g obtain n where n: "\<not> sent_sigterm s" "timeout \<le> k_now K (polled child (h @ t)) - start"
      "mid = [(Kill child SIGTERM, Inr n), (Now, Inr 0)]"
      "s' = \<lparr>sent_sigterm = True, sigterm_time = Some (k_now K (h @ ?a @ [(Kill child SIGTERM, Inr n)]))\<rparr>"
      by (auto simp: going_on_def)
    have "k_now K (polled child (h @ t)) \<le> k_now K (h @ ?a)" "k_now K (h @ ?a) \<le> k_now K (h @ ?a @ [(Kill child SIGTERM, Inr n)])"
      "start \<le> k_now K (polled child (h @ t))"
      unfolding start by (rule clock_mono [OF ok], simp)+
    with n ph h' have "wait_phase K child timeout h s' (?a @ mid @ [(Sleep_nanos POLL_INTERVAL, z)])"
      unfolding wait_phase_def start
      by simp (rule exI [of _ ?a], rule exI [of _ n], rule exI [of _ "[(Now, Inr 0), (Sleep_nanos POLL_INTERVAL, z)]"], simp)
    with h' show ?thesis by (intro exI [of _ "?a @ mid @ [(Sleep_nanos POLL_INTERVAL, z)]"]) simp
  qed
qed

text \<open>The last round: the child's status, or a panic, at most after one more signal.\<close>

lemma wait_step_ends:
  assumes "wait_timeout_step child timeout start s K h = (map_res Inr id r, h')"
  shows "(\<exists>st. r = Ret st \<and> k_wait K h child = Inr (Some st) \<and> h' = polled child h) \<or>
    (\<exists>m. r = Err m \<and> ((\<exists>mid. h' = h @ mid \<and> signals mid = []) \<or>
      (\<exists>q. \<not> sent_sigterm s \<and> timeout \<le> k_now K (polled child h) - start \<and>
        h' = h @ [(Waitpid_nohang child, Inr 0), (Now, Inr 0), (Kill child SIGTERM, q)]) \<or>
      (\<exists>ts q c. sent_sigterm s \<and> sigterm_time s = Some ts \<and> GRACE_PERIOD \<le> k_now K (h @ [(Waitpid_nohang child, Inr 0), (Now, Inr 0)]) - ts \<and>
        h' = h @ [(Waitpid_nohang child, Inr 0), (Now, Inr 0), (Now, Inr 0)] @ (Kill child SIGKILL, q) # c \<and> signals c = [])))"
proof (cases r)
  case (Err m)
  with assms show ?thesis
    by (auto simp: wait_timeout_step_def escalate_def prog_inv split: sum.splits option.splits if_splits)
qed (use assms in \<open>auto simp: wait_timeout_step_def escalate_def prog_inv split: sum.splits option.splits if_splits\<close>)

lemma wait_child_ends:
  assumes "clock_ok K" "wait_child_with_timeout child timeout K h = (r, h')"
  shows "\<exists>s t. wait_phase K child timeout h s t \<and>
    wait_timeout_step child timeout (k_now K h) s K (h @ t) = (map_res Inr id r, h')"
proof -
  let ?s = "\<lparr>sent_sigterm = False, sigterm_time = None\<rparr>"
  have loop: "loopP (wait_timeout_step child timeout (k_now K h)) ?s K (h @ [(Now, Inr 0)]) = (r, h')"
    using assms(2) by (simp add: wait_child_with_timeout_def prog_simps)
  moreover obtain q h2 where
    fuel: "loop_fuel (timeout div POLL_INTERVAL + 23) (wait_timeout_step child timeout (k_now K h)) K ?s (h @ [(Now, Inr 0)]) = Some (q, h2)"
    using wait_loop_fuel [OF assms(1) clock_mono [OF assms(1) refl]] by fastforce
  moreover have "outcome_of q \<in> {O_ret, O_err}"
    by (rule ends_loop_fuel [OF _ _ fuel]) (auto intro: ends_wait_timeout_step)
  ultimately have "r \<noteq> Hangs" using loopP_fuel by fastforce
  with loop have "\<exists>s1 h1. (\<exists>t. h1 = h @ t \<and> wait_phase K child timeout h s1 t) \<and>
      wait_timeout_step child timeout (k_now K h) s1 K h1 = (map_res Inr id r, h')"
  proof (rule loopP_invariant)
    show "\<exists>t. h @ [(Now, Inr 0)] = h @ t \<and> wait_phase K child timeout h ?s t" by (simp add: wait_phase_def)
  qed (use wait_phase_step [OF assms(1) _ refl] in blast)
  then show ?thesis by blast
qed

lemma wait_phase_signals:
  assumes "wait_phase K child timeout h w t" "signals u = []"
  shows "signals (t @ u) = [] \<or> (\<exists>a q b. t @ u = a @ (Kill child SIGTERM, q) # b \<and> signals a = [] \<and> signals b = [] \<and>
    k_now K h + timeout \<le> k_now K (h @ a))"
proof (cases "sent_sigterm w")
  case True
  with assms obtain a n b where "t = a @ (Kill child SIGTERM, Inr n) # b" "signals a = []" "signals b = []"
    "k_now K h + timeout \<le> k_now K (h @ a)" by (auto simp: wait_phase_def)
  with assms(2) show ?thesis by (intro disjI2 exI [of _ a] exI [of _ "Inr n"] exI [of _ "b @ u"]) simp
qed (use assms in \<open>simp add: wait_phase_def\<close>)

lemma run_in_userns_cases [consumes 1, case_names Child Parent Failed]:
  assumes "run_in_userns test K h = (q, h')"
  obtains r w where "k_pair K h Pipe = Inr (r, w)"
      "userns_child r w test K (h @ [(Pipe, Inr 0), (Fork, Inr 0)]) = (q, h')"
  | r w n where "k_pair K h Pipe = Inr (r, w)" "n \<noteq> 0"
      "userns_parent r w (int n) K (h @ [(Pipe, Inr 0), (Fork, Inr n)]) = (q, h')"
  | m where "q = Err m"
proof (cases "k_pair K h Pipe")
  case (Inl e)
  with assms that show ?thesis by (auto simp: run_in_userns_def prog_simps)
next
  case (Inr p)
  then show ?thesis
    using assms that by (cases p; cases "k_call K (h @ [(Pipe, Inr 0)]) Fork")
      (auto simp: run_in_userns_def prog_simps split: if_splits)
qed

lemma userns_parent_Ret:
  assumes "userns_parent r w child K h = (Ret u, h')"
  shows "\<exists>c st h2. wait_child_with_timeout child (30 * 10 ^ 9) K (h @ [(Close w, c)]) = (Ret st, h2) \<and> exit_status st = Some 0"
  using assms by (auto simp: userns_parent_def prog_inv Let_def split: option.splits if_splits)

lemma ends_userns_parent: "{O_ret, O_err, O_hang} \<subseteq> S \<Longrightarrow> ends_in S (userns_parent r w c)"
  unfolding userns_parent_def by (intro outcome_intros) auto

lemma expectP_Ret: "expectP msg m K h = (Ret x, h') \<longleftrightarrow> m K h = (Ret (Inr x), h')"
proof -
  have "(case r of Inr x \<Rightarrow> retP x | Inl e \<Rightarrow> bindP (askP (\<lambda>K h. Some (msg @ '': '' @ k_debug_error K e))) throwP) K h1 = (Ret x, h')
      \<longleftrightarrow> r = Inr x \<and> h1 = h'" for r h1
    by (cases r) (auto simp: prog_inv)
  then show ?thesis by (simp add: expectP_def prog_inv)
qed

lemma userns_test_Ret:
  assumes "userns_test test K h = (Ret u, h')"
  shows "\<exists>n1 n2 n3 n4. test K (h @ [(Unshare_newuser_newns, Inr n1), (Fs_write ''/proc/self/setgroups'' ''deny'', Inr n2),
    (Fs_write ''/proc/self/uid_map'' (userns_map (k_uid K h)), Inr n3),
    (Fs_write ''/proc/self/gid_map'' (userns_map (k_gid K h)), Inr n4)]) = (Ret u, h')"
  using assms unfolding userns_test_def by (auto simp: prog_inv expectP_Ret)

lemma ends_userns_test: "ends_in {O_ret, O_err} test \<Longrightarrow> ends_in {O_ret, O_err} (userns_test test)"
  unfolding userns_test_def expectP_def by (intro outcome_intros) (auto intro: outcome_intros ends_in_mono)

lemma ends_userns_child: "ends_in {O_ret, O_err} test \<Longrightarrow> ends_in {O_exit} (userns_child r w test)"
  unfolding userns_child_def by (intro outcome_intros) (auto intro: ends_in_mono [OF ends_userns_test])

lemma userns_child_Exit:
  assumes "ends_in {O_ret, O_err} test" "userns_child r w test K h = (Exit x, h')"
  shows "\<exists>c h2 q1 q2. (x = 0 \<and> h' = h2 @ [(Close w, q2)] \<and> userns_test test K (h @ [(Close r, c)]) = (Ret (), h2)) \<or>
    (\<exists>payload bt. x = 1 \<and> h' = h2 @ [(Write w (panic_report payload bt), q1), (Close w, q2)] \<and>
        userns_test test K (h @ [(Close r, c)]) = (Err payload, h2))"
proof -
  let ?h = "h @ [(Close r, k_call K h (Close r))]"
  obtain t h2 where t: "userns_test test K ?h = (t, h2)" by fastforce
  from ends_inD [OF ends_userns_test [OF assms(1)] t] consider (ok) "t = Ret ()" | (panic) p where "t = Err p"
    by (cases t) auto
  then show ?thesis
  proof cases
    case ok
    with assms(2) t have "x = 0" "\<exists>q. h' = h2 @ [(Close w, q)]"
      by (auto simp: userns_child_def sys_exit_def prog_simps)
    with ok t show ?thesis by blast
  next
    case panic
    with assms(2) t have "x = 1" "\<exists>bt q1 q2. h' = h2 @ [(Write w (panic_report p bt), q1), (Close w, q2)]"
      by (auto simp: userns_child_def sys_exit_def prog_simps)
    with panic t show ?thesis by blast
  qed
qed

section \<open>A clock for the examples\<close>

text \<open>Time passes in the sleeps only; the child ends with status 0 once it was sent a signal.\<close>

definition slept :: "hist \<Rightarrow> nat" where
  "slept h = sum_list (map (\<lambda>e. case fst e of Sleep_nanos d \<Rightarrow> d | _ \<Rightarrow> 0) h)"

definition sample_clock :: kernel where
  "sample_clock = sample\<lparr>k_now := slept, k_wait := (\<lambda>h p.
     Inr (if signals h = [] then None else Some \<lparr>stopped = False, terminating_signal = None, exit_status = Some 0\<rparr>))\<rparr>"

lemma sample_clock_ok: "clock_ok sample_clock"
  by (simp add: clock_ok_def sample_clock_def sample_def slept_def)

lemma sample_wait:
  "\<exists>s st. wait_child_with_timeout 7 0 sample_clock [] = (Ret st, s) \<and> exit_status st = Some 0 \<and> signals s = [(7, SIGTERM)]"
  by (simp add: wait_child_with_timeout_def loopP_unfold loop_run.simps wait_timeout_step_def escalate_def prog_simps
      sample_clock_def sample_simps slept_def POLL_INTERVAL_def)

section \<open>Properties\<close>

text \<open>C31: The wait with a time limit always ends: with a clock that does not go back and sleeps
  that last as long as asked, it returns the child's status or panics, and it sleeps at most
  once per polling interval of the time limit and of the grace period (and three times more).\<close>

theorem wait_terminates:
  assumes "clock_ok K"
  shows "\<exists>r s. wait_child_with_timeout child timeout K h = (r, h @ s) \<and> outcome_of r \<in> {O_ret, O_err} \<and>
    length (filter (\<lambda>e. fst e = Sleep_nanos POLL_INTERVAL) s) \<le> timeout div POLL_INTERVAL + GRACE_PERIOD div POLL_INTERVAL + 3"
proof -
  let ?body = "wait_timeout_step child timeout (k_now K h)"
  obtain q h2 where
    fuel: "loop_fuel (timeout div POLL_INTERVAL + 23) ?body K \<lparr>sent_sigterm = False, sigterm_time = None\<rparr> (h @ [(Now, Inr 0)]) = Some (q, h2)"
    using wait_loop_fuel [OF assms clock_mono [OF assms refl]] by fastforce
  have q: "outcome_of q \<in> {O_ret, O_err}"
    by (rule ends_loop_fuel [OF _ _ fuel]) (auto intro: ends_wait_timeout_step)
  obtain t where t: "h2 = (h @ [(Now, Inr 0)]) @ t"
      "length (filter (\<lambda>e. fst e = Sleep_nanos POLL_INTERVAL) t) \<le> timeout div POLL_INTERVAL + 23"
    using loop_fuel_count [OF _ fuel] wait_step_one_sleep by blast
  have "wait_child_with_timeout child timeout K h = (q, h @ (Now, Inr 0) # t)"
    using loopP_fuel [OF fuel] t by (simp add: wait_child_with_timeout_def prog_simps)
  moreover have "GRACE_PERIOD div POLL_INTERVAL = 20" by (simp add: GRACE_PERIOD_def POLL_INTERVAL_def)
  ultimately show ?thesis using q t(2) by (intro exI [of _ q] exI [of _ "(Now, Inr 0) # t"]) simp
qed

theorem wait_terminates_witness:
  "\<exists>r s. wait_child_with_timeout 7 (30 * 10 ^ 9) sample_clock [] = (r, s) \<and> outcome_of r \<in> {O_ret, O_err} \<and>
    length (filter (\<lambda>e. fst e = Sleep_nanos POLL_INTERVAL) s) \<le> 323"
  using wait_terminates [OF sample_clock_ok, of 7 "30 * 10 ^ 9" "[]"]
  by (simp add: POLL_INTERVAL_def GRACE_PERIOD_def)


text \<open>C35: The wait escalates and never skips a step: it sends no signal, or only \<open>SIGTERM\<close> to the
  child and that not before the time limit, or \<open>SIGKILL\<close> after a \<open>SIGTERM\<close> that succeeded at
  least the grace period before, and then it panics; when it returns a status, it is the one
  that the last poll gave.\<close>

theorem wait_escalates:
  assumes "clock_ok K" "wait_child_with_timeout child timeout K h = (r, h')"
  shows "\<exists>s. h' = h @ s \<and>
    (signals s = [] \<or>
     (\<exists>a q b. s = a @ (Kill child SIGTERM, q) # b \<and> signals a = [] \<and> signals b = [] \<and>
        k_now K h + timeout \<le> k_now K (h @ a)) \<or>
     (\<exists>a n b q c. s = a @ (Kill child SIGTERM, Inr n) # b @ (Kill child SIGKILL, q) # c \<and>
        signals a = [] \<and> signals b = [] \<and> signals c = [] \<and> k_now K h + timeout \<le> k_now K (h @ a) \<and>
        k_now K (h @ a) + GRACE_PERIOD \<le> k_now K (h @ a @ (Kill child SIGTERM, Inr n) # b) \<and> (\<exists>m. r = Err m))) \<and>
    (\<forall>st. r = Ret st \<longrightarrow> (\<exists>t. s = t @ [(Waitpid_nohang child, Inr 0)] \<and> k_wait K (h @ t) child = Inr (Some st)))"
proof -
  let ?poll = "[(Waitpid_nohang child, Inr 0), (Now, Inr 0)] :: hist"
  from wait_child_ends [OF assms] obtain w t where ph: "wait_phase K child timeout h w t" and
    last: "wait_timeout_step child timeout (k_now K h) w K (h @ t) = (map_res Inr id r, h')" by blast
  from wait_step_ends [OF last] consider
    (status) st where "r = Ret st" "k_wait K (h @ t) child = Inr (Some st)" "h' = h @ t @ [(Waitpid_nohang child, Inr 0)]"
  | (quiet) m mid where "r = Err m" "h' = h @ t @ mid" "signals mid = []"
  | (killed) m q where "r = Err m" "\<not> sent_sigterm w" "timeout \<le> k_now K (polled child (h @ t)) - k_now K h"
      "h' = h @ t @ ?poll @ [(Kill child SIGTERM, q)]"
  | (forced) m ts q c where "r = Err m" "sent_sigterm w" "sigterm_time w = Some ts"
      "GRACE_PERIOD \<le> k_now K (h @ t @ ?poll) - ts"
      "h' = h @ t @ ?poll @ (Now, Inr 0) # (Kill child SIGKILL, q) # c" "signals c = []"
    by auto
  then show ?thesis
  proof cases
    case status
    with wait_phase_signals [OF ph, of "[(Waitpid_nohang child, Inr 0)]"] show ?thesis
      by (intro exI [of _ "t @ [(Waitpid_nohang child, Inr 0)]"]) auto
  next
    case quiet
    with wait_phase_signals [OF ph quiet(3)] show ?thesis by (intro exI [of _ "t @ mid"]) auto
  next
    case killed
    have "k_now K (polled child (h @ t)) \<le> k_now K (h @ t @ ?poll)" "k_now K h \<le> k_now K (polled child (h @ t))"
      by (rule clock_mono [OF assms(1)], simp)+
    then have "k_now K h + timeout \<le> k_now K (h @ t @ ?poll)" using killed(3) by linarith
    moreover have "signals t = []" using ph killed(2) by (simp add: wait_phase_def)
    ultimately show ?thesis using killed(1,4)
      by (intro exI [of _ "t @ ?poll @ [(Kill child SIGTERM, q)]"] conjI disjI2 [OF disjI1] exI [of _ "t @ ?poll"] exI [of _ q]
          exI [of _ "[]"]) simp_all
  next
    case forced
    from ph forced obtain a n b where t: "t = a @ (Kill child SIGTERM, Inr n) # b" "signals a = []" "signals b = []"
      "k_now K h + timeout \<le> k_now K (h @ a)" "k_now K (h @ a) \<le> ts" by (auto simp: wait_phase_def)
    let ?b = "b @ ?poll @ [(Now, Inr 0)]"
    have "k_now K (h @ t @ ?poll) \<le> k_now K (h @ a @ (Kill child SIGTERM, Inr n) # ?b)"
      by (rule clock_mono [OF assms(1), where s = "[(Now, Inr 0)]"]) (simp add: t)
    moreover have "0 < GRACE_PERIOD" by (simp add: GRACE_PERIOD_def)
    ultimately have "k_now K (h @ a) + GRACE_PERIOD \<le> k_now K (h @ a @ (Kill child SIGTERM, Inr n) # ?b)"
      using t(5) forced(4) by linarith
    moreover have "\<exists>m. r = Err m" using forced(1) by blast
    ultimately show ?thesis using forced(1,5,6) t
      by (intro exI [of _ "a @ (Kill child SIGTERM, Inr n) # ?b @ (Kill child SIGKILL, q) # c"] conjI disjI2 [OF disjI2] exI [of _ a] exI [of _ n]
          exI [of _ ?b] exI [of _ q] exI [of _ c]) simp_all
  qed
qed

theorem wait_escalates_witness:
  "\<exists>s st t. wait_child_with_timeout 7 0 sample_clock [] = (Ret st, s) \<and> signals s = [(7, SIGTERM)] \<and>
    s = t @ [(Waitpid_nohang 7, Inr 0)] \<and> k_wait sample_clock t 7 = Inr (Some st)"
proof -
  obtain s st where run: "wait_child_with_timeout 7 0 sample_clock [] = (Ret st, s)" "signals s = [(7, SIGTERM)]"
    using sample_wait by blast
  from wait_escalates [OF sample_clock_ok run(1)] run show ?thesis by auto
qed


text \<open>C40: The verdict of the harness: the parent's side returns only when the child that was waited
  for exited with status 0. The child's side exits with 0 exactly when the namespaces were
  made, both maps (one line, the own id as root) were written and the closure returned;
  otherwise it exits with 1 after it wrote the panic message to the pipe.\<close>

theorem run_in_userns_verdict:
  assumes "ends_in {O_ret, O_err} test"
  shows "(run_in_userns test K h = (Ret u, h') \<longrightarrow> (\<exists>r w n c st h2. k_pair K h Pipe = Inr (r, w) \<and> n \<noteq> 0 \<and>
      wait_child_with_timeout (int n) (30 * 10 ^ 9) K (h @ [(Pipe, Inr 0), (Fork, Inr n), (Close w, c)]) = (Ret st, h2) \<and>
      exit_status st = Some 0)) \<and>
   (run_in_userns test K h = (Exit x, h') \<longrightarrow> (\<exists>r w c. k_pair K h Pipe = Inr (r, w) \<and>
      ((\<exists>n1 n2 n3 n4 h2 q. x = 0 \<and> h' = h2 @ [(Close w, q)] \<and>
          test K (h @ [(Pipe, Inr 0), (Fork, Inr 0), (Close r, c), (Unshare_newuser_newns, Inr n1),
            (Fs_write ''/proc/self/setgroups'' ''deny'', Inr n2), (Fs_write ''/proc/self/uid_map'' (userns_map (k_uid K (h @ [(Pipe, Inr 0), (Fork, Inr 0), (Close r, c)]))), Inr n3),
            (Fs_write ''/proc/self/gid_map'' (userns_map (k_gid K (h @ [(Pipe, Inr 0), (Fork, Inr 0), (Close r, c)]))), Inr n4)]) = (Ret (), h2)) \<or>
       (\<exists>payload h2 bt q1 q2. x = 1 \<and> h' = h2 @ [(Write w (panic_report payload bt), q1), (Close w, q2)] \<and>
          userns_test test K (h @ [(Pipe, Inr 0), (Fork, Inr 0), (Close r, c)]) = (Err payload, h2)))))"
proof (intro conjI impI)
  assume "run_in_userns test K h = (Ret u, h')"
  then show "\<exists>r w n c st h2. k_pair K h Pipe = Inr (r, w) \<and> n \<noteq> 0 \<and>
      wait_child_with_timeout (int n) (30 * 10 ^ 9) K (h @ [(Pipe, Inr 0), (Fork, Inr n), (Close w, c)]) = (Ret st, h2) \<and>
      exit_status st = Some 0"
  proof (cases rule: run_in_userns_cases)
    case (Child r w)
    from ends_inD [OF ends_userns_child [OF assms] Child(2)] show ?thesis by simp
  next
    case (Parent r w n)
    with userns_parent_Ret [OF Parent(3)] show ?thesis by auto
  qed simp
next
  assume "run_in_userns test K h = (Exit x, h')"
  then show "\<exists>r w c. k_pair K h Pipe = Inr (r, w) \<and>
      ((\<exists>n1 n2 n3 n4 h2 q. x = 0 \<and> h' = h2 @ [(Close w, q)] \<and>
          test K (h @ [(Pipe, Inr 0), (Fork, Inr 0), (Close r, c), (Unshare_newuser_newns, Inr n1),
            (Fs_write ''/proc/self/setgroups'' ''deny'', Inr n2), (Fs_write ''/proc/self/uid_map'' (userns_map (k_uid K (h @ [(Pipe, Inr 0), (Fork, Inr 0), (Close r, c)]))), Inr n3),
            (Fs_write ''/proc/self/gid_map'' (userns_map (k_gid K (h @ [(Pipe, Inr 0), (Fork, Inr 0), (Close r, c)]))), Inr n4)]) = (Ret (), h2)) \<or>
       (\<exists>payload h2 bt q1 q2. x = 1 \<and> h' = h2 @ [(Write w (panic_report payload bt), q1), (Close w, q2)] \<and>
          userns_test test K (h @ [(Pipe, Inr 0), (Fork, Inr 0), (Close r, c)]) = (Err payload, h2)))"
  proof (cases rule: run_in_userns_cases)
    case (Child r w)
    from userns_child_Exit [OF assms Child(2)] Child(1) show ?thesis
      by (auto dest!: userns_test_Ret) blast+
  next
    case (Parent r w n)
    from ends_inD [OF ends_userns_parent [of "{O_ret, O_err, O_hang}"] Parent(3)] show ?thesis by simp
  qed simp
qed

theorem run_in_userns_verdict_witness:
  "\<exists>h' q. run_in_userns (retP ()) sample [] = (Exit 0, h' @ [(Close 11, q)])"
proof -
  have run: "\<exists>h'. run_in_userns (retP ()) sample [] = (Exit 0, h')"
    by (simp add: run_in_userns_def userns_child_def userns_test_def expectP_def sys_exit_def prog_simps sample_simps)
  then obtain h' where h': "run_in_userns (retP ()) sample [] = (Exit 0, h')" ..
  have "k_pair sample [] Pipe = Inr (10, 11)" by (simp add: sample_def)
  with run_in_userns_verdict [of "retP ()" sample "[]" "()" h' 0] h' show ?thesis
    by (auto simp: ends_ret)
qed

end
