(* ===== verification/Rendezvous.thy ===== *)
theory Rendezvous
  imports Prog_Logic
begin

text \<open>
  Two processes that share a channel: after a fork one process waits for a message of the
  other. A \<open>run\<close> is what the model of one process says it does on its own kernel; the step
  relation interleaves the events of the two runs in every order that the channel allows.
  What the receiver's kernel answered has to agree with what was sent: data must have been
  written before, and the end of the file comes only when nothing is left and no process
  holds the writing end any more. These are the documented semantics of a pipe and of a
  \<open>SOCK_SEQPACKET\<close> pair; a link says which events of a component send, receive and close.
\<close>

section \<open>Runs and links\<close>

record run =
  r_kernel :: kernel
  r_before :: hist
  r_trace :: hist
  r_ends :: bool

text \<open>The run of a program: it ends when the process exits, panics or is replaced, which
  closes the descriptors. (A loop that does not end keeps them open.)\<close>

definition run_of :: "('a, 'e) prog \<Rightarrow> kernel \<Rightarrow> hist \<Rightarrow> run" where
  "run_of m K h = (case m K h of (r, h') \<Rightarrow>
     \<lparr>r_kernel = K, r_before = h, r_trace = drop (length h) h', r_ends = (outcome_of r \<in> {O_exit, O_exec, O_panic})\<rparr>)"

text \<open>\<open>sent\<close>: how much an event puts into the channel; \<open>got\<close>: how much a receive took, where
  0 is the end of the file, and \<open>None\<close> for other events and failed receives; \<open>shuts\<close>: the
  receiver closes its own copy of the sending end.\<close>

record link =
  sent :: "event \<Rightarrow> nat"
  got :: "kernel \<Rightarrow> hist \<Rightarrow> event \<Rightarrow> nat option"
  shuts :: "event \<Rightarrow> bool"

definition received :: "link \<Rightarrow> run \<Rightarrow> nat \<Rightarrow> nat option" where
  "received L A i = got L (r_kernel A) (r_before A @ take i (r_trace A)) (r_trace A ! i)"

section \<open>The step relation\<close>

record joint =
  p_done :: nat
  c_done :: nat
  units :: nat
  p_holds :: bool
  c_holds :: bool

definition joint_start :: joint where
  "joint_start = \<lparr>p_done = 0, c_done = 0, units = 0, p_holds = True, c_holds = True\<rparr>"

inductive child_step :: "link \<Rightarrow> run \<Rightarrow> joint \<Rightarrow> joint \<Rightarrow> bool" for L B where
  child_event: "c_done s < length (r_trace B) \<Longrightarrow>
    child_step L B s (s\<lparr>c_done := Suc (c_done s), units := units s + sent L (r_trace B ! c_done s)\<rparr>)"
| child_end: "c_done s = length (r_trace B) \<Longrightarrow> r_ends B \<Longrightarrow> child_step L B s (s\<lparr>c_holds := False\<rparr>)"

inductive parent_step :: "link \<Rightarrow> run \<Rightarrow> joint \<Rightarrow> joint \<Rightarrow> bool" for L A where
  parent_event: "p_done s < length (r_trace A) \<Longrightarrow> received L A (p_done s) = None \<Longrightarrow>
    parent_step L A s (s\<lparr>p_done := Suc (p_done s), p_holds := p_holds s \<and> \<not> shuts L (r_trace A ! p_done s)\<rparr>)"
| parent_data: "p_done s < length (r_trace A) \<Longrightarrow> received L A (p_done s) = Some k \<Longrightarrow> 0 < k \<Longrightarrow> k \<le> units s \<Longrightarrow>
    parent_step L A s (s\<lparr>p_done := Suc (p_done s), units := units s - k\<rparr>)"
| parent_eof: "p_done s < length (r_trace A) \<Longrightarrow> received L A (p_done s) = Some 0 \<Longrightarrow>
    units s = 0 \<Longrightarrow> \<not> p_holds s \<Longrightarrow> \<not> c_holds s \<Longrightarrow>
    parent_step L A s (s\<lparr>p_done := Suc (p_done s)\<rparr>)"

inductive reach :: "link \<Rightarrow> run \<Rightarrow> run \<Rightarrow> joint \<Rightarrow> bool" for L A B where
  reach_start: "reach L A B joint_start"
| reach_child: "reach L A B s \<Longrightarrow> child_step L B s t \<Longrightarrow> reach L A B t"
| reach_parent: "reach L A B s \<Longrightarrow> parent_step L A s t \<Longrightarrow> reach L A B t"

inductive_cases child_stepE: "child_step L B s t"
inductive_cases parent_stepE: "parent_step L A s t"

text \<open>A receive can be answered: there is something to take, or the end of the file is there.\<close>

definition answerable :: "joint \<Rightarrow> bool" where
  "answerable s \<longleftrightarrow> 0 < units s \<or> (\<not> p_holds s \<and> \<not> c_holds s)"

section \<open>Invariants\<close>

definition given :: "link \<Rightarrow> run \<Rightarrow> nat \<Rightarrow> nat" where
  "given L B j = (\<Sum>i<j. sent L (r_trace B ! i))"

definition taken :: "link \<Rightarrow> run \<Rightarrow> nat \<Rightarrow> nat" where
  "taken L A j = (\<Sum>i<j. case received L A i of None \<Rightarrow> 0 | Some k \<Rightarrow> k)"

definition joint_inv :: "link \<Rightarrow> run \<Rightarrow> run \<Rightarrow> joint \<Rightarrow> bool" where
  "joint_inv L A B s \<longleftrightarrow> p_done s \<le> length (r_trace A) \<and> c_done s \<le> length (r_trace B) \<and>
     units s + taken L A (p_done s) = given L B (c_done s) \<and>
     (\<forall>i < p_done s. received L A i = None \<and> shuts L (r_trace A ! i) \<longrightarrow> \<not> p_holds s) \<and>
     (\<not> c_holds s \<longrightarrow> c_done s = length (r_trace B) \<and> r_ends B) \<and>
     (\<forall>i < p_done s. received L A i = Some 0 \<longrightarrow> \<not> c_holds s \<and> given L B (c_done s) = taken L A i)"

lemma given_Suc [simp]: "given L B (Suc j) = given L B j + sent L (r_trace B ! j)"
  by (simp add: given_def)

lemma taken_Suc [simp]: "taken L A (Suc j) = taken L A j + (case received L A j of None \<Rightarrow> 0 | Some k \<Rightarrow> k)"
  by (simp add: taken_def)

lemma joint_start_inv: "joint_inv L A B joint_start"
  by (simp add: joint_inv_def joint_start_def given_def taken_def)

lemma child_step_inv: "child_step L B s t \<Longrightarrow> joint_inv L A B s \<Longrightarrow> joint_inv L A B t"
  by (erule child_stepE) (auto simp: joint_inv_def)

lemma parent_step_inv: "parent_step L A s t \<Longrightarrow> joint_inv L A B s \<Longrightarrow> joint_inv L A B t"
  by (erule parent_stepE) (auto simp: joint_inv_def less_Suc_eq)

lemma reach_inv: "reach L A B s \<Longrightarrow> joint_inv L A B s"
  by (induction rule: reach.induct) (blast intro: joint_start_inv child_step_inv parent_step_inv)+

lemma given_pos: "0 < given L B n \<longleftrightarrow> (\<exists>j < n. 0 < sent L (r_trace B ! j))"
  by (induction n) (auto simp: given_def less_Suc_eq)

lemma taken_pos: "i < n \<Longrightarrow> received L A i = Some (Suc k) \<Longrightarrow> 0 < taken L A n"
  by (induction n) (auto simp: less_Suc_eq)

lemma taken_none: "(\<And>i. i < n \<Longrightarrow> received L A i = None) \<Longrightarrow> taken L A n = 0"
  by (simp add: taken_def)

text \<open>The child can always run to its end without the parent.\<close>

lemma child_runs_on:
  "c_done s \<le> length (r_trace B) \<Longrightarrow> \<exists>t. (child_step L B)\<^sup>*\<^sup>* s t \<and> c_done t = length (r_trace B) \<and>
    p_done t = p_done s \<and> p_holds t = p_holds s \<and> (r_ends B \<longrightarrow> \<not> c_holds t)"
proof (induction "length (r_trace B) - c_done s" arbitrary: s)
  case 0
  then have fin: "c_done s = length (r_trace B)" by simp
  show ?case
  proof (cases "r_ends B")
    case True
    with child_end [OF fin] fin show ?thesis by (intro exI [of _ "s\<lparr>c_holds := False\<rparr>"]) auto
  qed (use fin in blast)
next
  case (Suc n)
  let ?t = "s\<lparr>c_done := Suc (c_done s), units := units s + sent L (r_trace B ! c_done s)\<rparr>"
  from Suc have step: "child_step L B s ?t" by (intro child_event) simp
  from Suc have "n = length (r_trace B) - c_done ?t" "c_done ?t \<le> length (r_trace B)" by simp_all
  from Suc.hyps(1) [OF this] obtain t where "(child_step L B)\<^sup>*\<^sup>* ?t t" "c_done t = length (r_trace B)"
    "p_done t = p_done s" "p_holds t = p_holds s" "r_ends B \<longrightarrow> \<not> c_holds t" by auto
  with step show ?case by (meson converse_rtranclp_into_rtranclp)
qed

lemma reach_children: "(child_step L B)\<^sup>*\<^sup>* s t \<Longrightarrow> reach L A B s \<Longrightarrow> reach L A B t"
  by (induction rule: rtranclp_induct) (auto intro: reach_child)

text \<open>One schedule: the child first.\<close>

lemma child_first:
  "\<exists>t. reach L A B t \<and> p_done t = 0 \<and> c_done t = length (r_trace B) \<and> p_holds t \<and>
    units t = given L B (length (r_trace B))"
proof -
  from child_runs_on [of joint_start B L] obtain t where
    t: "(child_step L B)\<^sup>*\<^sup>* joint_start t" "c_done t = length (r_trace B)" "p_done t = 0" "p_holds t"
    by (auto simp: joint_start_def)
  from reach_children [OF t(1) reach_start] have r: "reach L A B t" .
  from reach_inv [OF r] t have "units t = given L B (length (r_trace B))" by (simp add: joint_inv_def taken_def)
  with r t show ?thesis by blast
qed

lemma parent_goes_on:
  "reach L A B s \<Longrightarrow> p_done s < length (r_trace A) \<Longrightarrow> received L A (p_done s) = None \<Longrightarrow>
   \<exists>t. reach L A B t \<and> p_done t = Suc (p_done s) \<and> units t = units s"
  using reach_parent [OF _ parent_event, of L A B s] by fastforce

lemma parent_takes:
  "reach L A B s \<Longrightarrow> p_done s < length (r_trace A) \<Longrightarrow> received L A (p_done s) = Some k \<Longrightarrow> 0 < k \<Longrightarrow>
   k \<le> units s \<Longrightarrow> \<exists>t. reach L A B t \<and> p_done t = Suc (p_done s)"
  using reach_parent [OF _ parent_data, of L A B s k] by fastforce

section \<open>The contract of a rendezvous\<close>

text \<open>
  Safety: the receiver closes its own copy of the sending end before it receives, and the
  sender does not send before it is prepared. Then a receiver that got data knows that the
  sender was prepared, and a receiver that got the end of the file knows that it is gone.
\<close>

locale handshake =
  fixes L :: link and waits :: "run \<Rightarrow> bool" and serves :: "run \<Rightarrow> bool" and prepared :: "hist \<Rightarrow> bool"
  assumes shuts_first: "waits A \<Longrightarrow> i < length (r_trace A) \<Longrightarrow> received L A i \<noteq> None \<Longrightarrow>
      \<exists>j < i. received L A j = None \<and> shuts L (r_trace A ! j)"
    and prepared_first: "serves B \<Longrightarrow> j < length (r_trace B) \<Longrightarrow> 0 < sent L (r_trace B ! j) \<Longrightarrow>
      (\<And>i. i < j \<Longrightarrow> sent L (r_trace B ! i) = 0) \<Longrightarrow> prepared (take j (r_trace B))"
begin

lemma data_prepared:
  assumes "reach L A B s" "serves B" "i < p_done s" "received L A i = Some (Suc k)"
  shows "\<exists>j < c_done s. 0 < sent L (r_trace B ! j) \<and> prepared (take j (r_trace B))"
proof -
  from reach_inv [OF assms(1)] have "units s + taken L A (p_done s) = given L B (c_done s)" "c_done s \<le> length (r_trace B)"
    by (simp_all add: joint_inv_def)
  with taken_pos [OF assms(3,4)] have "0 < given L B (c_done s)" by simp
  then have "\<exists>j. j < c_done s \<and> 0 < sent L (r_trace B ! j)" by (auto simp: given_pos)
  then obtain j where j: "j < c_done s" "0 < sent L (r_trace B ! j)" "\<And>i. i < j \<Longrightarrow> \<not> (i < c_done s \<and> 0 < sent L (r_trace B ! i))"
    unfolding exists_least_iff [of "\<lambda>j. j < c_done s \<and> 0 < sent L (r_trace B ! j)"] by blast
  then have "sent L (r_trace B ! i) = 0" if "i < j" for i using that by (meson less_trans not_gr_zero)
  with prepared_first [OF assms(2), of j] j(1,2) \<open>c_done s \<le> _\<close> show ?thesis by (meson less_le_trans)
qed

lemma eof_ended:
  assumes "reach L A B s" "i < p_done s" "received L A i = Some 0"
  shows "r_ends B \<and> c_done s = length (r_trace B)"
  using reach_inv [OF assms(1)] assms(2,3) by (auto simp: joint_inv_def)

end

text \<open>Liveness: the sender also sends or ends. Then a receiver that waits for its first answer
  gets one.\<close>

locale rendezvous = handshake +
  assumes sends_or_ends: "serves B \<Longrightarrow> (\<exists>j < length (r_trace B). 0 < sent L (r_trace B ! j)) \<or> r_ends B"
begin

lemma no_deadlock_shut:
  assumes s: "reach L A B s" and B: "serves B" and shut: "j < p_done s" "received L A j = None" "shuts L (r_trace A ! j)"
    and wait: "\<And>i. i < p_done s \<Longrightarrow> received L A i = None"
  shows "\<exists>t. (child_step L B)\<^sup>*\<^sup>* s t \<and> reach L A B t \<and> p_done t = p_done s \<and> answerable t"
proof -
  have "c_done s \<le> length (r_trace B)" using reach_inv [OF s] by (simp add: joint_inv_def)
  from child_runs_on [OF this] obtain t where t: "(child_step L B)\<^sup>*\<^sup>* s t" "c_done t = length (r_trace B)"
    "p_done t = p_done s" "p_holds t = p_holds s" "r_ends B \<longrightarrow> \<not> c_holds t" by blast
  from reach_children [OF t(1) s] have r: "reach L A B t" .
  from reach_inv [OF r] have inv: "units t + taken L A (p_done t) = given L B (length (r_trace B))"
      "\<forall>i < p_done t. received L A i = None \<and> shuts L (r_trace A ! i) \<longrightarrow> \<not> p_holds t"
    using t(2) by (simp_all add: joint_inv_def)
  have "taken L A (p_done t) = 0" using wait t(3) by (intro taken_none) simp
  with inv(1) have units: "units t = given L B (length (r_trace B))" by simp
  have "\<not> p_holds t" using shut inv(2) t(3) by auto
  with sends_or_ends [OF B] units t(5) have "answerable t" by (auto simp: answerable_def given_pos)
  with t r show ?thesis by blast
qed

lemma no_deadlock:
  assumes "reach L A B s" "waits A" "serves B" "p_done s < length (r_trace A)" "received L A (p_done s) \<noteq> None"
    and "\<And>i. i < p_done s \<Longrightarrow> received L A i = None"
  shows "\<exists>t. (child_step L B)\<^sup>*\<^sup>* s t \<and> reach L A B t \<and> p_done t = p_done s \<and> answerable t"
  using shuts_first [OF assms(2,4,5)] no_deadlock_shut [OF assms(1,3) _ _ _ assms(6)] by blast

end

end
