(* ===== verification/Handshakes.thy ===== *)
theory Handshakes
  imports Rendezvous Attach
begin

text \<open>
  The two places where a process of the program waits for another one: \<open>IdmapHelper::new\<close> reads
  one byte from the pipe to its helper, and \<open>attach/parent.rs\<close> receives the ready message of
  the attach child. Both are instances of the rendezvous: the facts that hold of one process
  on every kernel become facts about both, in every order of their steps.
\<close>

section \<open>The pipe to the idmap helper\<close>

definition pipe_link :: "fd \<Rightarrow> fd \<Rightarrow> link" where
  "pipe_link r w = \<lparr>
     sent = (\<lambda>e. case e of (Write_all f d, Inr _) \<Rightarrow> if f = w then length d else 0 | _ \<Rightarrow> 0),
     got = (\<lambda>K h e. case fst e of Read f n \<Rightarrow> if f = r then (case k_fdread K h f n of Inr d \<Rightarrow> Some (length d) | Inl _ \<Rightarrow> None) else None
        | _ \<Rightarrow> None),
     shuts = (\<lambda>e. fst e = Close w)\<rparr>"

definition helper_waits :: "fd \<Rightarrow> fd \<Rightarrow> pid \<Rightarrow> run \<Rightarrow> bool" where
  "helper_waits r w child A \<longleftrightarrow> (\<exists>K h. A = run_of (helper_parent r w child) K h)"

definition helper_serves :: "fd \<Rightarrow> fd \<Rightarrow> u32 \<Rightarrow> u32 \<Rightarrow> u32 \<Rightarrow> u32 \<Rightarrow> run \<Rightarrow> bool" where
  "helper_serves r w iu ou ig og B \<longleftrightarrow>
     (\<exists>K h. B = run_of (helper_child r w iu ou ig og :: (unit, unit) prog) K h)"

text \<open>The helper's user namespace is there and has its two maps.\<close>

definition maps_written :: "u32 \<Rightarrow> u32 \<Rightarrow> u32 \<Rightarrow> u32 \<Rightarrow> hist \<Rightarrow> bool" where
  "maps_written iu ou ig og s \<longleftrightarrow> (\<exists>c a g m1 m2 rd. s =
     [(Close rd, c), (Unshare_newuser, Inr a), (Fs_write ''/proc/self/setgroups'' ''deny'', g),
      (Fs_write ''/proc/self/uid_map'' (id_map_line iu ou), Inr m1),
      (Fs_write ''/proc/self/gid_map'' (id_map_line ig og), Inr m2)])"

text \<open>The two sides: the parent closes, reads, and goes on only after one byte; the helper
  exits without having sent anything, or it has sent its byte and sleeps.\<close>

lemma helper_parent_run:
  "\<exists>c t. snd (helper_parent r w child K h) = h @ (Close w, c) # t \<and>
    (t = [(Read r 1, map_sum id (\<lambda>_. 0) (k_fdread K (h @ [(Close w, c)]) r 1))] \<and>
       (\<forall>d. k_fdread K (h @ [(Close w, c)]) r 1 = Inr d \<longrightarrow> length d \<noteq> 1) \<or>
     (\<exists>b c2 q. k_fdread K (h @ [(Close w, c)]) r 1 = Inr [b] \<and>
       t = [(Read r 1, Inr 0), (Close r, c2), (Open_read (''/proc/'' @ show_int child @ ''/ns/user''), q)]))"
  by (auto simp: helper_parent_def prog_simps Let_def length_Suc_conv split: sum.splits)

lemma helper_child_run:
  "(\<exists>s. helper_child r w iu ou ig og K h = (Exit 1, h @ s) \<and> list_all (\<lambda>e. sent (pipe_link r w) e = 0) s) \<or>
   (\<exists>s n. helper_child r w iu ou ig og K h = (Hangs, h @ s @ [(Write_all w ''R'', Inr n)]) \<and> maps_written iu ou ig og s)"
proof -
  let ?h = "h @ [(Close r, k_call K h (Close r))]"
  obtain u h2 where u: "setup_userns iu ou ig og K ?h = (u, h2)" by fastforce
  have "emits (\<lambda>e. sent (pipe_link r w) e = 0) (setup_userns iu ou ig og)"
    unfolding setup_userns_def by (intro emits_intros) (simp_all add: pipe_link_def)
  from emitsD [OF this u] obtain t where t: "h2 = ?h @ t" "list_all (\<lambda>e. sent (pipe_link r w) e = 0) t" by blast
  from ends_inD [OF ends_setup_userns [OF subset_refl] u] consider (ok) "u = Ret ()" | (failed) e where "u = Err e"
    by (cases u) auto
  then show ?thesis
  proof cases
    case failed
    with u t show ?thesis
      by (auto simp: helper_child_def prog_simps sys_exit_def pipe_link_def)
  next
    case ok
    from setup_userns_Ret [OF u [unfolded ok]] t have
      m: "maps_written iu ou ig og ((Close r, k_call K h (Close r)) # t)" by (auto simp: maps_written_def)
    show ?thesis
    proof (cases "k_call K h2 (Write_all w ''R'')")
      case (Inl e)
      with u t ok show ?thesis by (auto simp: helper_child_def prog_simps sys_exit_def pipe_link_def)
    next
      case (Inr n)
      with u t ok m show ?thesis
        by (intro disjI2 exI [of _ "(Close r, k_call K h (Close r)) # t"] exI [of _ n])
          (simp add: helper_child_def prog_simps sleep_forever_run)
    qed
  qed
qed

lemma run_of_run:
  "m K h = (r, h @ t) \<Longrightarrow> run_of m K h = \<lparr>r_kernel = K, r_before = h, r_trace = t, r_ends = (outcome_of r \<in> {O_exit, O_exec, O_panic})\<rparr>"
  by (simp add: run_of_def)

lemma helper_parent_trace:
  assumes "A = run_of (helper_parent r w child) K h"
  obtains c where "r_kernel A = K" "r_before A = h" "r_trace A = [(Close w, c), (Read r 1, map_sum id (\<lambda>_. 0) (k_fdread K (h @ [(Close w, c)]) r 1))]"
      "\<forall>d. k_fdread K (h @ [(Close w, c)]) r 1 = Inr d \<longrightarrow> length d \<noteq> 1"
  | c b c2 q where "r_kernel A = K" "r_before A = h" "k_fdread K (h @ [(Close w, c)]) r 1 = Inr [b]"
      "r_trace A = [(Close w, c), (Read r 1, Inr 0), (Close r, c2), (Open_read (''/proc/'' @ show_int child @ ''/ns/user''), q)]"
proof -
  obtain res h' where m: "helper_parent r w child K h = (res, h')" by fastforce
  with helper_parent_run [of r w child K h] obtain c t where "h' = h @ (Close w, c) # t"
    and t: "t = [(Read r 1, map_sum id (\<lambda>_. 0) (k_fdread K (h @ [(Close w, c)]) r 1))] \<and>
       (\<forall>d. k_fdread K (h @ [(Close w, c)]) r 1 = Inr d \<longrightarrow> length d \<noteq> 1) \<or>
     (\<exists>b c2 q. k_fdread K (h @ [(Close w, c)]) r 1 = Inr [b] \<and>
       t = [(Read r 1, Inr 0), (Close r, c2), (Open_read (''/proc/'' @ show_int child @ ''/ns/user''), q)])" by auto
  with m run_of_run [of "helper_parent r w child" K h res "(Close w, c) # t"] assms
  have "r_kernel A = K" "r_before A = h" "r_trace A = (Close w, c) # t" by simp_all
  with t that show thesis by blast
qed

lemma helper_parent_receives:
  assumes "A = run_of (helper_parent r w child) K h" "i < length (r_trace A)" "received (pipe_link r w) A i \<noteq> None"
  shows "i = 1"
  using assms(1)
proof (rule helper_parent_trace)
  fix c assume "r_trace A = [(Close w, c), (Read r 1, map_sum id (\<lambda>_. 0) (k_fdread K (h @ [(Close w, c)]) r 1))]"
  with assms(2,3) show ?thesis by (auto simp: received_def pipe_link_def less_Suc_eq)
next
  fix c b c2 q
  assume "r_trace A = [(Close w, c), (Read r 1, Inr 0), (Close r, c2), (Open_read (''/proc/'' @ show_int child @ ''/ns/user''), q)]"
  with assms(2,3) show ?thesis by (auto simp: received_def pipe_link_def less_Suc_eq)
qed

lemma helper_child_trace:
  assumes "B = run_of (helper_child r w iu ou ig og :: (unit, unit) prog) K h"
  obtains "r_ends B" "\<forall>j < length (r_trace B). sent (pipe_link r w) (r_trace B ! j) = 0"
  | s n where "r_trace B = s @ [(Write_all w ''R'', Inr n)]" "maps_written iu ou ig og s"
  using helper_child_run [of r w iu ou ig og K h, where 'a = unit and 'b = unit]
proof (elim disjE exE conjE)
  fix s
  assume "helper_child r w iu ou ig og K h = (Exit 1 :: (unit, unit) res, h @ s)" "list_all (\<lambda>e. sent (pipe_link r w) e = 0) s"
  with assms that(1) show thesis by (simp add: run_of_run list_all_length)
next
  fix s n
  assume "helper_child r w iu ou ig og K h = (Hangs :: (unit, unit) res, h @ s @ [(Write_all w ''R'', Inr n)])" "maps_written iu ou ig og s"
  with assms that(2) show thesis by (simp add: run_of_run)
qed

lemma helper_parent_first: "fst (r_trace (run_of (helper_parent r w child) K h) ! 0) = Close w"
  by (rule helper_parent_trace [of _ r w child K h, OF refl]) simp_all

lemma maps_length: "maps_written iu ou ig og s \<Longrightarrow> length s = 5"
  by (auto simp: maps_written_def)

lemma maps_quiet: "maps_written iu ou ig og s \<Longrightarrow> j < length s \<Longrightarrow> sent (pipe_link r w) (s ! j) = 0"
  by (auto simp: maps_written_def pipe_link_def less_Suc_eq)

interpretation pipe: rendezvous "pipe_link r w" "helper_waits r w child" "helper_serves r w iu ou ig og" "maps_written iu ou ig og"
  for r w child iu ou ig og
proof unfold_locales
  fix A i
  assume "helper_waits r w child A" and i: "i < length (r_trace A)" "received (pipe_link r w) A i \<noteq> None"
  then obtain K h where A: "A = run_of (helper_parent r w child) K h" by (auto simp: helper_waits_def)
  from helper_parent_receives [OF A i] have "i = 1" .
  moreover have "fst (r_trace A ! 0) = Close w" unfolding A by (rule helper_parent_first)
  ultimately show "\<exists>j < i. received (pipe_link r w) A j = None \<and> shuts (pipe_link r w) (r_trace A ! j)"
    by (simp add: received_def pipe_link_def)
next
  fix B j
  assume "helper_serves r w iu ou ig og B" and j: "j < length (r_trace B)" "0 < sent (pipe_link r w) (r_trace B ! j)"
  then obtain K h where "B = run_of (helper_child r w iu ou ig og :: (unit, unit) prog) K h" by (auto simp: helper_serves_def)
  then show "maps_written iu ou ig og (take j (r_trace B))"
  proof (cases rule: helper_child_trace)
    case 1
    with j show ?thesis by simp
  next
    case (2 s n)
    with j maps_quiet [OF 2(2)] have "j = length s" by (auto simp: nth_append less_Suc_eq split: if_splits)
    with 2 show ?thesis by simp
  qed
next
  fix B
  assume "helper_serves r w iu ou ig og B"
  then obtain K h where "B = run_of (helper_child r w iu ou ig og :: (unit, unit) prog) K h" by (auto simp: helper_serves_def)
  then show "(\<exists>j < length (r_trace B). 0 < sent (pipe_link r w) (r_trace B ! j)) \<or> r_ends B"
  proof (cases rule: helper_child_trace)
    case (2 s n)
    then show ?thesis by (intro disjI1 exI [of _ "length s"]) (simp add: pipe_link_def)
  qed simp
qed

section \<open>Properties of the helper\<close>

text \<open>C12: The helper is never used too early: in whatever order the two processes run, when
  \<open>IdmapHelper::new\<close> opens the user namespace of its helper, the helper has unshared its
  namespace and written both maps. And it gives up for a closed pipe only when the helper has
  ended.\<close>

theorem helper_never_early:
  assumes "A = run_of (helper_parent r w child) Ka ha"
    and "B = run_of (helper_child r w iu ou ig og :: (unit, unit) prog) Kb hb"
    and "reach (pipe_link r w) A B s"
  shows "((Open_read (''/proc/'' @ show_int child @ ''/ns/user''), q) \<in> set (take (p_done s) (r_trace A)) \<longrightarrow>
      5 < c_done s \<and> maps_written iu ou ig og (take 5 (r_trace B))) \<and>
    (helper_parent r w child Ka ha = (Err (HelperNotReady 0), h') \<and> p_done s = length (r_trace A) \<longrightarrow>
      c_done s = length (r_trace B) \<and> r_ends B)"
proof (rule conjI; rule impI)
  have B: "helper_serves r w iu ou ig og B" using assms(2) by (auto simp: helper_serves_def)
  assume opened: "(Open_read (''/proc/'' @ show_int child @ ''/ns/user''), q) \<in> set (take (p_done s) (r_trace A))"
  from assms(1) show "5 < c_done s \<and> maps_written iu ou ig og (take 5 (r_trace B))"
  proof (rule helper_parent_trace)
    fix c assume "r_trace A = [(Close w, c), (Read r 1, map_sum id (\<lambda>_. 0) (k_fdread Ka (ha @ [(Close w, c)]) r 1))]"
    with opened show ?thesis by (auto dest: in_set_takeD)
  next
    fix c b c2 q2
    assume A: "r_kernel A = Ka" "r_before A = ha" "k_fdread Ka (ha @ [(Close w, c)]) r 1 = Inr [b]"
      "r_trace A = [(Close w, c), (Read r 1, Inr 0), (Close r, c2), (Open_read (''/proc/'' @ show_int child @ ''/ns/user''), q2)]"
    with opened have "1 < p_done s" by (auto simp: take_Cons' split: if_splits)
    moreover have "received (pipe_link r w) A 1 = Some (Suc 0)" using A by (simp add: received_def pipe_link_def)
    ultimately obtain j where j: "j < c_done s" "maps_written iu ou ig og (take j (r_trace B))"
      using pipe.data_prepared [OF assms(3) B] by blast
    moreover have "c_done s \<le> length (r_trace B)" using reach_inv [OF assms(3)] by (simp add: joint_inv_def)
    ultimately have "j = 5" using maps_length [OF j(2)] by (simp add: min_def split: if_splits)
    with j show ?thesis by simp
  qed
next
  assume "helper_parent r w child Ka ha = (Err (HelperNotReady 0), h') \<and> p_done s = length (r_trace A)"
  then have e: "helper_parent r w child Ka ha = (Err (HelperNotReady 0), h')" and fin: "p_done s = length (r_trace A)" by simp_all
  from e obtain c where "h' = ha @ [(Close w, c), (Read r 1, Inr 0)]" "k_fdread Ka (ha @ [(Close w, c)]) r 1 = Inr []"
    by (auto simp: helper_parent_def prog_simps Let_def split: sum.splits if_splits)
  with assms(1) e fin have "received (pipe_link r w) A 1 = Some 0" "1 < p_done s"
    by (simp_all add: run_of_run received_def pipe_link_def)
  with pipe.eof_ended [OF assms(3)] show "c_done s = length (r_trace B) \<and> r_ends B" by blast
qed

theorem helper_never_early_witness:
  "\<exists>s. reach (pipe_link 10 11) (run_of (helper_parent 10 11 8) (sample\<lparr>k_fdread := (\<lambda>h f n. Inr ''R'')\<rparr>) [])
      (run_of (helper_child 10 11 0 1000 0 100 :: (unit, unit) prog) sample []) s \<and> p_done s = 4 \<and>
    maps_written 0 1000 0 100 (take 5 (r_trace (run_of (helper_child 10 11 0 1000 0 100 :: (unit, unit) prog) sample [])))"
proof -
  let ?L = "pipe_link 10 11" and ?A = "run_of (helper_parent 10 11 8) (sample\<lparr>k_fdread := (\<lambda>h f n. Inr ''R'')\<rparr>) []"
    and ?B = "run_of (helper_child 10 11 0 1000 0 100 :: (unit, unit) prog) sample []"
  have eight: "show_int 8 = ''8''" by code_simp
  have A: "r_trace ?A = [(Close 11, Inr 0), (Read 10 1, Inr 0), (Close 10, Inr 0), (Open_read ''/proc/8/ns/user'', Inr 0)]"
    by (simp add: run_of_def helper_parent_def prog_simps sample_simps eight Let_def)
  have got: "received ?L ?A 0 = None" "received ?L ?A 1 = Some 1" "received ?L ?A 2 = None" "received ?L ?A 3 = None"
    by (simp_all add: received_def pipe_link_def A) (simp add: run_of_def split: prod.split)
  obtain n where "(Write_all 11 ''R'', Inr n) \<in> set (r_trace ?B)"
    by (simp add: run_of_def helper_child_def setup_userns_def prog_simps sample_simps sleep_forever_run Let_def)
  then have "0 < given ?L ?B (length (r_trace ?B))" by (force simp: given_pos in_set_conv_nth pipe_link_def)
  moreover obtain t where t: "reach ?L ?A ?B t" "p_done t = 0" "units t = given ?L ?B (length (r_trace ?B))"
    using child_first by blast
  ultimately have "1 \<le> units t" by simp
  with t parent_goes_on [OF t(1)] got(1) obtain t1 where "reach ?L ?A ?B t1" "p_done t1 = 1" "1 \<le> units t1"
    by (auto simp: A)
  with parent_takes [of ?L ?A ?B t1 1] got(2) obtain t2 where "reach ?L ?A ?B t2" "p_done t2 = 2"
    by (auto simp: A numeral_2_eq_2)
  with parent_goes_on [of ?L ?A ?B t2] got(3) obtain t3 where "reach ?L ?A ?B t3" "p_done t3 = 3"
    by (auto simp: A numeral_3_eq_3 numeral_2_eq_2)
  with parent_goes_on [of ?L ?A ?B t3] got(4) obtain t4 where r4: "reach ?L ?A ?B t4" "p_done t4 = 4"
    by (auto simp: A)
  from helper_never_early [OF refl refl r4(1), where q = "Inr 0"] r4(2)
  have "maps_written 0 1000 0 100 (take 5 (r_trace ?B))" by (simp add: A eight)
  with r4 show ?thesis by blast
qed

text \<open>C18: The hand-shake with the helper does not deadlock: whenever the parent has closed its copy
  of the writing end and is about to read, the helper alone can run on to a state in which
  the read is answered, by the byte or by the end of the file; this needs the close.\<close>

theorem helper_no_deadlock:
  assumes "reach (pipe_link r w) (run_of (helper_parent r w child) Ka ha)
      (run_of (helper_child r w iu ou ig og :: (unit, unit) prog) Kb hb) s" and "p_done s = 1"
  shows "\<exists>t. (child_step (pipe_link r w) (run_of (helper_child r w iu ou ig og :: (unit, unit) prog) Kb hb))\<^sup>*\<^sup>* s t \<and>
    p_done t = 1 \<and> answerable t"
proof -
  let ?A = "run_of (helper_parent r w child) Ka ha" and ?B = "run_of (helper_child r w iu ou ig og :: (unit, unit) prog) Kb hb"
  have "helper_serves r w iu ou ig og ?B" by (auto simp: helper_serves_def)
  from pipe.no_deadlock_shut [OF assms(1) this, where j = 0] assms(2) helper_parent_first [of r w child Ka ha]
  have "\<exists>t. (child_step (pipe_link r w) ?B)\<^sup>*\<^sup>* s t \<and> reach (pipe_link r w) ?A ?B t \<and> p_done t = p_done s \<and> answerable t"
    by (simp add: received_def pipe_link_def)
  with assms(2) show ?thesis by auto
qed

theorem helper_no_deadlock_witness:
  "\<exists>s t. reach (pipe_link 10 11) (run_of (helper_parent 10 11 8) sample [])
      (run_of (helper_child 10 11 0 1000 0 100 :: (unit, unit) prog) sample []) s \<and> c_done s = 0 \<and>
    (child_step (pipe_link 10 11) (run_of (helper_child 10 11 0 1000 0 100 :: (unit, unit) prog) sample []))\<^sup>*\<^sup>* s t \<and> answerable t"
proof -
  let ?L = "pipe_link 10 11" and ?A = "run_of (helper_parent 10 11 8) sample []"
  have A: "r_trace ?A = [(Close 11, Inr 0), (Read 10 1, Inl (Os 9))]"
    by (simp add: run_of_def helper_parent_def prog_simps sample_simps Let_def)
  then have "received ?L ?A 0 = None" by (simp add: received_def pipe_link_def)
  then have "parent_step ?L ?A joint_start (joint_start\<lparr>p_done := 1, p_holds := False\<rparr>)"
    using parent_event [of joint_start ?A ?L] A by (simp add: joint_start_def pipe_link_def)
  then have "reach ?L ?A B (joint_start\<lparr>p_done := 1, p_holds := False\<rparr>)" for B
    using reach_parent [OF reach_start] by blast
  from helper_no_deadlock [OF this] this show ?thesis by (fastforce simp: joint_start_def)
qed

section \<open>The socket between the attach processes\<close>

text \<open>The two arms of the fork in \<open>attach\<close>.\<close>

definition attach_parent_side :: "pid \<Rightarrow> socket \<Rightarrow> socket \<Rightarrow> (unit, attach_error) prog" where
  "attach_parent_side child parent_sock child_sock =
     bindP (call (Close (sock_fd child_sock))) (\<lambda>_. parent_run child parent_sock)"

definition attach_child_side :: "socket \<Rightarrow> child_options \<Rightarrow> (unit, attach_error) prog" where
  "attach_child_side parent_sock options = bindP (call (Close (sock_fd parent_sock))) (\<lambda>_. attach_child options)"

lemma attach_fork_sides:
  assumes "k_pair K h Socketpair = Inr (p, c)" "k_call K (h @ [(Socketpair, Inr 0)]) Fork = Inr n"
  shows "attach_fork opts ps ih K h =
    (if n = 0 then attach_child_side \<lparr>sock_fd = p\<rparr> \<lparr>co_command = ao_command opts, co_arguments = ao_arguments opts,
         process_status = ps, co_socket = \<lparr>sock_fd = c\<rparr>, co_userns_fd = map_option ih_userns_fd ih,
         effective_home = map_option user_dir (ao_effective_user opts)\<rparr>
     else attach_parent_side (int n) \<lparr>sock_fd = p\<rparr> \<lparr>sock_fd = c\<rparr>) K (h @ [(Socketpair, Inr 0), (Fork, Inr n)])"
  using assms by (simp add: attach_fork_def socket_pair_def prog_simps attach_child_side_def attach_parent_side_def)

definition sock_link :: "socket \<Rightarrow> socket \<Rightarrow> link" where
  "sock_link p c = \<lparr>
     sent = (\<lambda>e. case e of (Sendmsg f d fds, Inr _) \<Rightarrow> if f = sock_fd c then 1 else 0 | _ \<Rightarrow> 0),
     got = (\<lambda>K h e. case e of
         (Recvmsg f n, Inr _) \<Rightarrow> if f = sock_fd p then (case k_recv K h f n of
             Inr (bytes, cmsgs) \<Rightarrow> Some (if bytes = [] then 0 else 1) | Inl _ \<Rightarrow> None) else None
       | _ \<Rightarrow> None),
     shuts = (\<lambda>e. fst e = Close (sock_fd c))\<rparr>"

text \<open>The child has done what has to come before its ready message: it entered the namespaces it
  had opened, set the credentials exactly when a user namespace is among them, and dropped
  the capabilities that the container does not have.\<close>

definition entered :: "child_options \<Rightarrow> hist \<Rightarrow> bool" where
  "entered options s \<longleftrightarrow> (\<exists>before nss rs tty cred drops.
     s = before @ zip (map (\<lambda>ns. Setns (ns_file ns)) nss) rs @ tty @ cred @ drops \<and>
     subseq (map ns_kind nss) other_kinds \<and> length rs = length nss \<and> list_all (\<lambda>r. \<exists>n. r = Inr n) rs \<and>
     list_all terminal_event tty \<and> cred_events (process_status options) (has_user_ns nss) cred \<and>
     drop_events (process_status options) drops)"

abbreviation no_send :: "event \<Rightarrow> bool" where
  "no_send e \<equiv> case fst e of Sendmsg _ _ _ \<Rightarrow> False | _ \<Rightarrow> True"

lemma stage_no_send: "no_send e \<longleftrightarrow> stage_of e \<noteq> Some S_Ready"
  by (simp add: stage_of_def split: call.split)

lemma stages_no_send: "\<forall>x \<in> set (stages s). x \<le> S_Capabilities \<Longrightarrow> list_all no_send s"
proof (induction s)
  case (Cons e s)
  from Cons.prems have "\<not> stage_of e = Some S_Ready" "\<forall>x \<in> set (stages s). x \<le> S_Capabilities"
    by (auto simp: stages_def map_filter_simps stage_le split: option.splits)
  with Cons.IH show ?case by (simp add: stage_no_send)
qed simp

lemma no_send_sent: "no_send e \<Longrightarrow> sent (sock_link p c) e = 0"
  by (cases e; cases "fst e") (auto simp: sock_link_def split: sum.splits)

lemma staged_no_send:
  assumes "staged a b m" "b \<le> S_Capabilities"
  shows "emits no_send m"
proof (rule emitsI)
  fix K h
  from assms(1) obtain s where "snd (m K h) = h @ s" "\<forall>x \<in> set (stages s). a \<le> x \<and> x \<le> b"
    unfolding staged_def by blast
  with assms(2) show "\<exists>s. snd (m K h) = h @ s \<and> list_all no_send s"
    by (intro exI [of _ s]) (auto intro!: stages_no_send intro: order_trans)
qed

lemma child_parts_no_send:
  "emits no_send (child_prepare opts)" "emits no_send (child_mounts opts)" "emits no_send (child_enter opts nss)"
proof -
  show "emits no_send (child_prepare opts)"
    by (rule emits_mono [OF only_child_prepare [of S_Unshare]]) (auto simp: stage_no_send)
  show "emits no_send (child_mounts opts)" "emits no_send (child_enter opts nss)"
    by (rule staged_no_send [OF staged_child_mounts] staged_no_send [OF staged_child_enter]; simp add: stage_le)+
qed

text \<open>How a child's run looks to the parent: it never sends, or its first message is the ready
  message and everything that has to be done first is done.\<close>

definition ready_run :: "child_options \<Rightarrow> hist \<Rightarrow> bool" where
  "ready_run opts s \<longleftrightarrow> list_all no_send s \<or> (\<exists>u fds q t.
     s = u @ (Sendmsg (sock_fd (co_socket opts)) ''R'' fds, q) # t \<and>
     list_all no_send u \<and> entered opts u \<and> ((\<exists>e. q = Inl e) \<longrightarrow> list_all no_send t))"

lemma child_finish_first:
  assumes "child_finish opts base cm pty K h = (r, h')"
  shows "\<exists>fds q t. h' = h @ (Sendmsg (sock_fd (co_socket opts)) ''R'' fds, q) # t \<and> ((\<exists>e. q = Inl e) \<longrightarrow> t = [])"
proof -
  define fds where "fds = (case pty of Some p \<Rightarrow> [p] | None \<Rightarrow> [])"
  let ?c = "Sendmsg (sock_fd (co_socket opts)) ''R'' fds"
  define rest where "rest = bindP (call (Chdir base)) (\<lambda>_.
     bindP (case ps_lsm_profile (process_status opts) of
         Some prof \<Rightarrow> map_errP Attach_Lsm (inherit_profile prof)
       | None \<Rightarrow> retP ()) (\<lambda>_. map_errP Attach_Cmd (exec_in_overlay cm)))"
  have "emits (\<lambda>_. True) rest"
    unfolding rest_def inherit_profile_def exec_in_overlay_def exec_command_def by (intro emits_intros) simp_all
  then have rest: "\<exists>t. snd (rest K a) = a @ t" for a unfolding emits_def by blast
  have "child_finish opts base cm pty = bindP (map_errP Attach_Ipc (send (co_socket opts) [ready_msg] fds)) (\<lambda>_. rest)"
    by (cases pty) (simp_all add: child_finish_def rest_def fds_def)
  moreover have "send (co_socket opts) [ready_msg] fds = bindP (tryP Ipc_Send (call ?c)) (\<lambda>_. retP ())"
    by (cases pty) (simp_all add: send_def ready_msg_def MAX_FDS_def fds_def)
  ultimately have run: "child_finish opts base cm pty K h = (case k_call K h ?c of
      Inl e \<Rightarrow> (Err (Attach_Ipc (Ipc_Send e)), h @ [(?c, Inl e)]) | Inr n \<Rightarrow> rest K (h @ [(?c, Inr n)]))"
    by (simp add: prog_simps split: sum.split)
  show ?thesis
  proof (cases "k_call K h ?c")
    case (Inl e)
    with run assms show ?thesis by auto
  next
    case (Inr n)
    from rest [of "h @ [(?c, Inr n)]"] obtain t where "snd (rest K (h @ [(?c, Inr n)])) = h @ (?c, Inr n) # t" by auto
    with run assms Inr have "h' = h @ (?c, Inr n) # t" by (metis snd_conv sum.simps(6))
    then show ?thesis by blast
  qed
qed

lemma entered_before:
  assumes "entered opts s"
  shows "entered opts (u @ s)"
proof -
  from assms obtain before nss rs tty cred drops where
    "s = before @ zip (map (\<lambda>ns. Setns (ns_file ns)) nss) rs @ tty @ cred @ drops"
    and *: "subseq (map ns_kind nss) other_kinds" "length rs = length nss" "list_all (\<lambda>r. \<exists>n. r = Inr n) rs"
      "list_all terminal_event tty" "cred_events (process_status opts) (has_user_ns nss) cred"
      "drop_events (process_status opts) drops"
    unfolding entered_def by blast
  then have "u @ s = (u @ before) @ zip (map (\<lambda>ns. Setns (ns_file ns)) nss) rs @ tty @ cred @ drops" by simp
  with * show ?thesis unfolding entered_def by blast
qed

lemma ready_runI:
  "list_all no_send u \<Longrightarrow> entered opts u \<Longrightarrow> (\<And>e. q = Inl e \<Longrightarrow> list_all no_send t) \<Longrightarrow>
   ready_run opts (u @ (Sendmsg (sock_fd (co_socket opts)) ''R'' fds, q) # t)"
  unfolding ready_run_def by blast

lemma ready_runE:
  assumes "ready_run opts s"
  obtains "list_all no_send s"
  | u fds q t where "s = u @ (Sendmsg (sock_fd (co_socket opts)) ''R'' fds, q) # t"
      "list_all no_send u" "entered opts u" "\<And>e. q = Inl e \<Longrightarrow> list_all no_send t"
  using assms unfolding ready_run_def by blast

lemma ready_after:
  assumes s: "ready_run opts s" and t: "list_all no_send t"
  shows "ready_run opts (s @ t)"
  using s
proof (cases rule: ready_runE)
  case 1
  with t show ?thesis by (simp add: ready_run_def)
next
  case (2 u fds q v)
  with t have "list_all no_send (v @ t)" if "q = Inl e" for e using that by simp
  from ready_runI [OF 2(2,3) this] 2(1) show ?thesis by simp
qed

lemma ready_before:
  assumes u: "list_all no_send u" and s: "ready_run opts s"
  shows "ready_run opts (u @ s)"
  using s
proof (cases rule: ready_runE)
  case 1
  with u show ?thesis by (simp add: ready_run_def)
next
  case (2 v fds q t)
  from u 2(2) have "list_all no_send (u @ v)" by simp
  from ready_runI [OF this entered_before [OF 2(3)] 2(4)] 2(1) show ?thesis by simp
qed

lemma quiet_ready: "list_all no_send s \<Longrightarrow> ready_run opts s"
  by (simp add: ready_run_def)

text \<open>A part that does not send, in front of the rest.\<close>

lemma ready_bind:
  assumes m: "emits no_send m" and run: "bindP m f K h = (r, h')"
    and f: "\<And>x h1. m K h = (Ret x, h1) \<Longrightarrow> f x K h1 = (r, h') \<Longrightarrow> \<exists>s. h' = h1 @ s \<and> ready_run opts s"
  shows "\<exists>s. h' = h @ s \<and> ready_run opts s"
proof -
  obtain r1 h1 where r1: "m K h = (r1, h1)" by fastforce
  from emitsD [OF m r1] obtain u where u: "h1 = h @ u" "list_all no_send u" by blast
  show ?thesis
  proof (cases "\<exists>x. r1 = Ret x")
    case True
    with r1 run obtain x where "m K h = (Ret x, h1)" "f x K h1 = (r, h')" by (auto simp: bindP_run)
    from f [OF this] u show ?thesis by (auto intro: ready_before)
  next
    case False
    with r1 run have "h' = h1" by (cases r1) (auto simp: bindP_run)
    with u show ?thesis by (auto intro: quiet_ready)
  qed
qed

lemma child_enter_finish_ready:
  assumes "child_enter opts nss K h = (Ret pty, h1)" "child_finish opts base cm pty K h1 = (r, h')"
    and "subseq (map ns_kind nss) other_kinds"
  shows "\<exists>s. h' = h @ s \<and> ready_run opts s"
proof -
  from child_enter_Ret [OF assms(1)] obtain rs tty cred drops where
    u: "h1 = h @ zip (map (\<lambda>ns. Setns (ns_file ns)) nss) rs @ tty @ cred @ drops" (is "h1 = h @ ?u")
    "length rs = length nss \<and> list_all (\<lambda>r. \<exists>n. r = Inr n) rs \<and> list_all terminal_event tty \<and>
     cred_events (process_status opts) (has_user_ns nss) cred \<and> drop_events (process_status opts) drops" by blast
  then have "entered opts ?u"
    unfolding entered_def using assms(3)
    by (intro exI [of _ "[]"] exI [of _ nss] exI [of _ rs] exI [of _ tty] exI [of _ cred] exI [of _ drops]) simp
  moreover have "list_all no_send ?u"
    using emitsD [OF child_parts_no_send(3) assms(1)] unfolding u(1) same_append_eq by blast
  moreover from child_finish_first [OF assms(2)] obtain fds q t where
    t: "h' = h1 @ (Sendmsg (sock_fd (co_socket opts)) ''R'' fds, q) # t" "\<And>e. q = Inl e \<Longrightarrow> list_all no_send t"
    by (metis list.pred_inject(1))
  ultimately have "ready_run opts (?u @ (Sendmsg (sock_fd (co_socket opts)) ''R'' fds, q) # t)" by (intro ready_runI)
  moreover have "h' = h @ ?u @ (Sendmsg (sock_fd (co_socket opts)) ''R'' fds, q) # t"
    unfolding t(1) u(1) append_assoc ..
  ultimately show ?thesis by blast
qed

lemma child_run_ready:
  assumes "child_run opts K h = (r, h')"
  shows "\<exists>s. h' = h @ s \<and> ready_run opts s"
proof (rule ready_bind [OF child_parts_no_send(1) assms [unfolded child_run_def]])
  fix x h1
  assume prep: "child_prepare opts K h = (Ret x, h1)"
  obtain cm nss where x: "x = (cm, nss)" by fastforce
  assume "(case x of (cmd, nss) \<Rightarrow> bindP (child_mounts opts) (\<lambda>(base, tz). let cmd' = add_tz tz cmd in
      bindP (child_enter opts nss) (\<lambda>pty. child_finish opts base cmd' pty))) K h1 = (r, h')"
  with x have run: "bindP (child_mounts opts) (\<lambda>(base, tz). let cmd' = add_tz tz cm in
      bindP (child_enter opts nss) (\<lambda>pty. child_finish opts base cmd' pty)) K h1 = (r, h')" by simp
  from child_prepare_Ret [OF prep [unfolded x]] have kinds: "subseq (map ns_kind nss) other_kinds" by blast
  show "\<exists>s. h' = h1 @ s \<and> ready_run opts s"
  proof (rule ready_bind [OF child_parts_no_send(2) run])
    fix y :: "string \<times> string option" and h2
    obtain base tz where y: "y = (base, tz)" by fastforce
    assume "(case y of (base, tz) \<Rightarrow> let cmd' = add_tz tz cm in
      bindP (child_enter opts nss) (\<lambda>pty. child_finish opts base cmd' pty)) K h2 = (r, h')"
    with y have rest: "bindP (child_enter opts nss) (\<lambda>pty. child_finish opts base (add_tz tz cm) pty) K h2 = (r, h')" by simp
    obtain r3 h3 where e: "child_enter opts nss K h2 = (r3, h3)" by fastforce
    show "\<exists>s. h' = h2 @ s \<and> ready_run opts s"
    proof (cases "\<exists>x. r3 = Ret x")
      case True
      with e rest obtain pty where "child_enter opts nss K h2 = (Ret pty, h3)"
        "child_finish opts base (add_tz tz cm) pty K h3 = (r, h')" by (auto simp: bindP_run)
      from child_enter_finish_ready [OF this kinds] show ?thesis .
    next
      case False
      with e rest have "h' = h3" by (cases r3) (auto simp: bindP_run)
      with emitsD [OF child_parts_no_send(3) e] show ?thesis by (auto intro: quiet_ready)
    qed
  qed
qed

text \<open>The run of the child's arm: the messages are those of \<open>child_run\<close>; what comes before and after is
  no message.\<close>

lemma attach_child_side_ready:
  assumes "attach_child_side p opts K h = (r, h')"
  shows "\<exists>c s. h' = h @ (Close (sock_fd p), c) # s \<and> ready_run opts s"
proof -
  let ?h = "h @ [(Close (sock_fd p), k_call K h (Close (sock_fd p)))]"
  obtain r1 h1 where c: "child_run opts K ?h = (r1, h1)" by fastforce
  from child_run_ready [OF this] obtain s where s: "h1 = ?h @ s" "ready_run opts s" by blast
  have "\<exists>t. h' = h1 @ t \<and> list_all no_send t"
    using assms c by (cases r1) (auto simp: attach_child_side_def attach_child_def prog_simps eprint_def)
  then obtain t where "h' = h1 @ t" "list_all no_send t" by blast
  moreover from this s(2) have "ready_run opts (s @ t)" by (intro ready_after)
  ultimately show ?thesis using s(1) by auto
qed

lemma receive_events: "emits (\<lambda>e. fst e = Recvmsg (sock_fd s) n) (receive s n)"
  unfolding receive_def receive_step_def by (intro emits_intros) simp

text \<open>The run of the parent's arm: it closes, then it receives; anything else comes after a
  message that is not empty.\<close>

lemma attach_parent_side_run:
  assumes "attach_parent_side child p c K h = (r, h')"
  shows "\<exists>q s. h' = h @ (Close (sock_fd c), q) # s \<and>
    (list_all (\<lambda>e. fst e = Recvmsg (sock_fd p) 1) s \<or>
     (\<exists>t msg cmsgs rest. s = t @ (Recvmsg (sock_fd p) 1, Inr 0) # rest \<and> list_all (\<lambda>e. fst e = Recvmsg (sock_fd p) 1) t \<and>
        k_recv K (h @ (Close (sock_fd c), q) # t) (sock_fd p) 1 = Inr (msg, cmsgs) \<and> msg \<noteq> []))"
proof -
  define q where "q = k_call K h (Close (sock_fd c))"
  let ?h = "h @ [(Close (sock_fd c), q)]"
  obtain r1 h1 where rc: "receive p 1 K ?h = (r1, h1)" by fastforce
  from emitsD [OF receive_events rc] obtain s where s: "h1 = ?h @ s" "list_all (\<lambda>e. fst e = Recvmsg (sock_fd p) 1) s" by blast
  from assms rc have run: "parent_run child p K ?h = (r, h')" by (simp add: attach_parent_side_def prog_simps q_def)
  show ?thesis
  proof (cases "\<exists>msg fds. r1 = Ret (msg, fds) \<and> msg \<noteq> [] \<and> msg ! 0 = CHR ''R''")
    case False
    with rc run have "h' = h1" by (cases r1) (auto simp: parent_run_def prog_simps split: if_splits)
    with s show ?thesis by auto
  next
    case True
    then obtain msg fds where m: "r1 = Ret (msg, fds)" "msg \<noteq> []" "msg ! 0 = CHR ''R''" by blast
    from receive_Ret [OF rc [unfolded m(1)]] obtain t cmsgs where
      t: "h1 = ?h @ t @ [(Recvmsg (sock_fd p) 1, Inr 0)]" "k_recv K (?h @ t) (sock_fd p) 1 = Inr (msg, cmsgs)" by blast
    define rest where "rest = (case fds of [] \<Rightarrow> map_errP Attach_Pty (wait_for_child child)
      | pty_fd # _ \<Rightarrow> map_errP Attach_Pty (forward_pty_and_wait pty_fd child))"
    from run rc m have after: "rest K h1 = (r, h')" by (simp add: parent_run_def prog_simps rest_def)
    have "emits (\<lambda>_. True) rest"
      unfolding rest_def wait_for_child_def wait_step_def forward_pty_and_wait_def forward_def RawTty_new_def RawTty_drop_def
        isatty_def
      by (intro emits_intros emits_mono [OF emits_forward_files]) simp_all
    from emitsD [OF this after] obtain u where "h' = h1 @ u" by blast
    moreover from s t(1) have "list_all (\<lambda>e. fst e = Recvmsg (sock_fd p) 1) t" by auto
    ultimately show ?thesis using t m(2) by (intro exI [of _ q] exI [of _ "t @ (Recvmsg (sock_fd p) 1, Inr 0) # u"]) auto
  qed
qed

lemma attach_parent_side_trace:
  assumes "A = run_of (attach_parent_side child p c) K h"
  shows "\<exists>q s. r_trace A = (Close (sock_fd c), q) # s \<and>
    (\<forall>i < length (r_trace A). fst (r_trace A ! i) \<notin> {Close (sock_fd c), Recvmsg (sock_fd p) 1} \<longrightarrow>
       (\<exists>j < i. received (sock_link p c) A j = Some 1))"
proof -
  obtain r h' where run: "attach_parent_side child p c K h = (r, h')" by fastforce
  from attach_parent_side_run [OF run] obtain q s where h': "h' = h @ (Close (sock_fd c), q) # s"
    and s: "list_all (\<lambda>e. fst e = Recvmsg (sock_fd p) 1) s \<or>
     (\<exists>t msg cmsgs rest. s = t @ (Recvmsg (sock_fd p) 1, Inr 0) # rest \<and> list_all (\<lambda>e. fst e = Recvmsg (sock_fd p) 1) t \<and>
        k_recv K (h @ (Close (sock_fd c), q) # t) (sock_fd p) 1 = Inr (msg, cmsgs) \<and> msg \<noteq> [])" by blast
  have A: "r_kernel A = K" "r_before A = h" "r_trace A = (Close (sock_fd c), q) # s"
    using run h' assms by (simp_all add: run_of_def)
  show ?thesis
  proof (rule exI [of _ q], rule exI [of _ s], rule conjI [OF A(3)], intro allI impI)
    fix i assume i: "i < length (r_trace A)" "fst (r_trace A ! i) \<notin> {Close (sock_fd c), Recvmsg (sock_fd p) 1}"
    from s show "\<exists>j < i. received (sock_link p c) A j = Some 1"
    proof (elim disjE exE conjE)
      assume "list_all (\<lambda>e. fst e = Recvmsg (sock_fd p) 1) s"
      with i A(3) show ?thesis by (cases i) (auto simp: list_all_length)
    next
      fix t msg cmsgs rest
      assume *: "s = t @ (Recvmsg (sock_fd p) 1, Inr 0) # rest" "list_all (\<lambda>e. fst e = Recvmsg (sock_fd p) 1) t"
        "k_recv K (h @ (Close (sock_fd c), q) # t) (sock_fd p) 1 = Inr (msg, cmsgs)" "msg \<noteq> []"
      then have "received (sock_link p c) A (Suc (length t)) = Some 1" by (simp add: received_def A sock_link_def)
      moreover from i * A(3) have "Suc (length t) < i"
        by (cases i) (auto simp: list_all_length nth_append not_less_iff_gr_or_eq split: if_splits)
      ultimately show ?thesis by blast
    qed
  qed
qed

definition attach_waits :: "pid \<Rightarrow> socket \<Rightarrow> socket \<Rightarrow> run \<Rightarrow> bool" where
  "attach_waits child p c A \<longleftrightarrow> (\<exists>K h. A = run_of (attach_parent_side child p c) K h)"

definition attach_runs :: "socket \<Rightarrow> child_options \<Rightarrow> run \<Rightarrow> bool" where
  "attach_runs p opts B \<longleftrightarrow> (\<exists>K h. B = run_of (attach_child_side p opts) K h)"

text \<open>A child that does not loop for ever on its own.\<close>

definition attach_serves :: "socket \<Rightarrow> child_options \<Rightarrow> run \<Rightarrow> bool" where
  "attach_serves p opts B \<longleftrightarrow> (\<exists>K h. B = run_of (attach_child_side p opts) K h \<and>
     fst (attach_child_side p opts K h) \<noteq> Hangs)"

lemma attach_runs_trace:
  assumes "attach_runs p opts B"
  shows "\<exists>q s. r_trace B = (Close (sock_fd p), q) # s \<and> ready_run opts s"
proof -
  from assms obtain K h where B: "B = run_of (attach_child_side p opts) K h" unfolding attach_runs_def by blast
  obtain r h' where run: "attach_child_side p opts K h = (r, h')" by fastforce
  from attach_child_side_ready [OF run] run B show ?thesis by (auto simp: run_of_def)
qed

lemma attach_serves_ends:
  assumes "attach_serves p opts B"
  shows "r_ends B"
proof -
  from assms obtain K h r h' where run: "attach_child_side p opts K h = (r, h')" and r: "r \<noteq> Hangs"
    and B: "B = run_of (attach_child_side p opts) K h" unfolding attach_serves_def by (metis prod.collapse)
  have "ends_in {O_exit, O_exec, O_panic, O_hang} (attach_child_side p opts)"
    unfolding attach_child_side_def by (intro outcome_intros) auto
  from ends_inD [OF this run] r have "outcome_of r \<in> {O_exit, O_exec, O_panic}" by (cases r) auto
  with run B show ?thesis by (simp add: run_of_def)
qed

lemma ready_run_first:
  assumes "ready_run opts s" "j < length s" "0 < sent (sock_link p (co_socket opts)) (s ! j)"
    and "\<And>i. i < j \<Longrightarrow> sent (sock_link p (co_socket opts)) (s ! i) = 0"
  shows "entered opts (take j s)"
  using assms(1)
proof (cases rule: ready_runE)
  case 1
  with assms(2,3) no_send_sent show ?thesis by (auto simp: list_all_length)
next
  case (2 u fds q t)
  have quiet: "list_all no_send v \<Longrightarrow> i < length v \<Longrightarrow> sent (sock_link p (co_socket opts)) (v ! i) = 0" for v i
    by (auto simp: list_all_length intro: no_send_sent)
  show ?thesis
  proof (cases q)
    case (Inl e)
    with 2 have "list_all no_send t" "sent (sock_link p (co_socket opts)) (Sendmsg (sock_fd (co_socket opts)) ''R'' fds, q) = 0"
      by (simp_all add: sock_link_def)
    with 2 assms(2,3) quiet [of u] quiet [of t] show ?thesis by (auto simp: nth_append nth_Cons split: if_splits nat.splits)
  next
    case (Inr n)
    then have "0 < sent (sock_link p (co_socket opts)) (s ! length u)" by (simp add: 2 sock_link_def)
    with assms(4) have "\<not> length u < j" by auto
    moreover have "\<not> j < length u" using assms(3) quiet [OF 2(2), of j] by (auto simp: 2(1) nth_append)
    ultimately have "j = length u" by simp
    with 2 show ?thesis by simp
  qed
qed

interpretation sock_any: handshake "sock_link p (co_socket opts)" "attach_waits child p (co_socket opts)" "attach_runs p opts" "entered opts"
  for p child opts
proof unfold_locales
  fix A i
  assume "attach_waits child p (co_socket opts) A" and i: "i < length (r_trace A)" "received (sock_link p (co_socket opts)) A i \<noteq> None"
  then obtain q s where A: "r_trace A = (Close (sock_fd (co_socket opts)), q) # s"
    unfolding attach_waits_def using attach_parent_side_trace by blast
  then have "received (sock_link p (co_socket opts)) A 0 = None" by (simp add: received_def sock_link_def)
  moreover from this i have "0 < i" by (cases i) auto
  ultimately show "\<exists>j < i. received (sock_link p (co_socket opts)) A j = None \<and> shuts (sock_link p (co_socket opts)) (r_trace A ! j)"
    by (intro exI [of _ 0]) (simp add: A sock_link_def)
next
  fix B j
  assume "attach_runs p opts B" and j: "j < length (r_trace B)" "0 < sent (sock_link p (co_socket opts)) (r_trace B ! j)"
    "\<And>i. i < j \<Longrightarrow> sent (sock_link p (co_socket opts)) (r_trace B ! i) = 0"
  then obtain q s where B: "r_trace B = (Close (sock_fd p), q) # s" "ready_run opts s"
    using attach_runs_trace by blast
  from j(2) B obtain k where k: "j = Suc k" by (cases j) (simp_all add: sock_link_def)
  with j(3) [of "Suc _"] B have "\<And>i. i < k \<Longrightarrow> sent (sock_link p (co_socket opts)) (s ! i) = 0" by simp
  with ready_run_first [OF B(2), of k] j(1,2) B(1) k have "entered opts (take k s)" by simp
  from entered_before [OF this, of "[(Close (sock_fd p), q)]"] show "entered opts (take j (r_trace B))" by (simp add: B(1) k)
qed

interpretation sock: rendezvous "sock_link p (co_socket opts)" "attach_waits child p (co_socket opts)" "attach_serves p opts" "entered opts"
  for p child opts
proof unfold_locales
  fix B j
  assume "attach_serves p opts B" and j: "j < length (r_trace B)" "0 < sent (sock_link p (co_socket opts)) (r_trace B ! j)"
    "\<And>i. i < j \<Longrightarrow> sent (sock_link p (co_socket opts)) (r_trace B ! i) = 0"
  then have "attach_runs p opts B" by (auto simp: attach_serves_def attach_runs_def)
  from sock_any.prepared_first [OF this j] show "entered opts (take j (r_trace B))" .
qed (auto intro: sock_any.shuts_first attach_serves_ends)

text \<open>A parent and a child that succeed, and the schedule in which the child goes first.\<close>

definition sample_sock_parent :: run where
  "sample_sock_parent = run_of (attach_parent_side 8 \<lparr>sock_fd = 10\<rparr> \<lparr>sock_fd = 11\<rparr>)
     (sample\<lparr>k_recv := (\<lambda>h f n. Inr (''R'', [])),
       k_wait := (\<lambda>h p. Inr (Some \<lparr>stopped = False, terminating_signal = None, exit_status = Some 3\<rparr>))\<rparr>) []"

definition sample_sock_child :: run where
  "sample_sock_child = run_of (attach_child_side \<lparr>sock_fd = 10\<rparr> sample_options) sample_attach []"

lemma sample_sock_parent_trace:
  "\<exists>s. r_trace sample_sock_parent = (Close 11, Inr 0) # (Recvmsg 10 1, Inr 0) # (Waitpid 8 True, Inr 0) # s"
  "received (sock_link \<lparr>sock_fd = 10\<rparr> \<lparr>sock_fd = 11\<rparr>) sample_sock_parent 0 = None"
  "received (sock_link \<lparr>sock_fd = 10\<rparr> \<lparr>sock_fd = 11\<rparr>) sample_sock_parent 1 = Some 1"
  "received (sock_link \<lparr>sock_fd = 10\<rparr> \<lparr>sock_fd = 11\<rparr>) sample_sock_parent 2 = None"
  by (simp_all add: sample_sock_parent_def run_of_def attach_parent_side_def parent_run_def receive_def receive_step_def
      loopP_unfold prog_simps sample_simps wait_for_child_def wait_step_def wait_end_def received_def sock_link_def Let_def)

lemma sample_sock_child_run:
  "\<exists>h' fds n. attach_child_side \<lparr>sock_fd = 10\<rparr> sample_options sample_attach [] = (Execed, h') \<and>
    (Sendmsg 11 ''R'' fds, Inr n) \<in> set h'"
proof -
  let ?h = "[(Close 10, k_call sample_attach [] (Close 10))]"
  obtain h' where c: "child_run sample_options sample_attach ?h = (Execed, h')" using sample_child_run by blast
  from child_run_Execed [OF c] obtain base cm pty h3 where
    "child_finish sample_options base cm pty sample_attach h3 = (Execed, h')" by blast
  from child_finish_Execed [OF this] have "\<exists>fds n. (Sendmsg 11 ''R'' fds, Inr n) \<in> set h'"
    by (force simp: sample_options_def)
  moreover from c have "attach_child_side \<lparr>sock_fd = 10\<rparr> sample_options sample_attach [] = (Execed, h')"
    by (simp add: attach_child_side_def attach_child_def bindP_run attemptP_run call_run)
  ultimately show ?thesis by blast
qed

lemma sample_sock_given:
  "0 < given (sock_link \<lparr>sock_fd = 10\<rparr> \<lparr>sock_fd = 11\<rparr>) sample_sock_child (length (r_trace sample_sock_child))"
proof -
  from sample_sock_child_run obtain fds n where "(Sendmsg 11 ''R'' fds, Inr n) \<in> set (r_trace sample_sock_child)"
    by (auto simp: sample_sock_child_def run_of_def)
  then show ?thesis by (force simp: given_pos in_set_conv_nth sock_link_def)
qed

section \<open>Properties of the attach processes\<close>



text \<open>C11: The attach hand-shake does not deadlock: as long as the parent has closed its copy of the
  child's socket and received nothing, the child (if it does not loop for ever on its own)
  can run on, without the parent, to a state in which the parent's receive is answered, by
  a message or, when the child fails, by the end of the file.\<close>

theorem attach_no_deadlock:
  assumes "attach_child_side p opts Kb hb = (r, hb')" "r \<noteq> Hangs"
    and "reach (sock_link p (co_socket opts)) (run_of (attach_parent_side child p (co_socket opts)) Ka ha)
      (run_of (attach_child_side p opts) Kb hb) s"
    and "0 < p_done s"
    and "\<And>i. i < p_done s \<Longrightarrow> received (sock_link p (co_socket opts)) (run_of (attach_parent_side child p (co_socket opts)) Ka ha) i = None"
  shows "\<exists>t. (child_step (sock_link p (co_socket opts)) (run_of (attach_child_side p opts) Kb hb))\<^sup>*\<^sup>* s t \<and>
    p_done t = p_done s \<and> answerable t"
proof -
  let ?A = "run_of (attach_parent_side child p (co_socket opts)) Ka ha" and ?B = "run_of (attach_child_side p opts) Kb hb"
  from assms(1,2) have "attach_serves p opts ?B" unfolding attach_serves_def by (metis fst_conv)
  moreover have "shuts (sock_link p (co_socket opts)) (r_trace ?A ! 0)"
    using attach_parent_side_trace [OF refl, of child p "co_socket opts" Ka ha] by (auto simp: sock_link_def)
  ultimately show ?thesis
    using sock.no_deadlock_shut [OF assms(3) _ assms(4) assms(5) [OF assms(4)] _ assms(5)] by blast
qed

theorem attach_no_deadlock_witness:
  "\<exists>s t. reach (sock_link \<lparr>sock_fd = 10\<rparr> \<lparr>sock_fd = 11\<rparr>) sample_sock_parent sample_sock_child s \<and> c_done s = 0 \<and>
    p_done s = 1 \<and> (child_step (sock_link \<lparr>sock_fd = 10\<rparr> \<lparr>sock_fd = 11\<rparr>) sample_sock_child)\<^sup>*\<^sup>* s t \<and> answerable t"
proof -
  let ?L = "sock_link \<lparr>sock_fd = 10\<rparr> \<lparr>sock_fd = 11\<rparr>" and ?s = "joint_start\<lparr>p_done := 1, p_holds := False\<rparr>"
  obtain s where A: "r_trace sample_sock_parent = (Close 11, Inr 0) # (Recvmsg 10 1, Inr 0) # (Waitpid 8 True, Inr 0) # s"
    using sample_sock_parent_trace(1) by blast
  have "parent_step ?L sample_sock_parent joint_start ?s"
    using parent_event [of joint_start sample_sock_parent ?L] sample_sock_parent_trace(2) A
    by (simp add: joint_start_def sock_link_def)
  then have r: "reach ?L sample_sock_parent sample_sock_child ?s" using reach_parent [OF reach_start] by blast
  have c: "co_socket sample_options = \<lparr>sock_fd = 11\<rparr>" by (simp add: sample_options_def)
  obtain h' where run: "attach_child_side \<lparr>sock_fd = 10\<rparr> sample_options sample_attach [] = (Execed, h')"
    using sample_sock_child_run by blast
  have "\<exists>t. (child_step ?L sample_sock_child)\<^sup>*\<^sup>* ?s t \<and> p_done t = p_done ?s \<and> answerable t"
    unfolding sample_sock_child_def
    by (rule attach_no_deadlock [where child = 8 and opts = sample_options, unfolded c, OF run _ r [unfolded sample_sock_parent_def sample_sock_child_def]])
      (use sample_sock_parent_trace(2) in \<open>simp_all add: sample_sock_parent_def\<close>)
  with r show ?thesis by (auto simp: joint_start_def)
qed

end
