(* ===== verification/Spec2Isabelle.thy ===== *)
theory Spec2Isabelle
  imports Cli Panic_Free Host_Process Test_Utils Handshakes
begin

text \<open>
  A verification of cntr (\<open>src/\<close> of the repository), the tool that attaches to a container
  with a mount overlay (\<open>cntr attach\<close>) or runs a command inside it (\<open>cntr exec\<close>).

  The program. \<open>bin/main.rs\<close> calls \<open>cli.rs\<close>, which parses the arguments and calls \<open>attach\<close>
  (\<open>attach/mod.rs\<close>) or \<open>exec\<close> (\<open>exec/mod.rs\<close>). Both probe the kernel
  (\<open>syscalls/capability.rs\<close>), look the container up (\<open>container.rs\<close>, \<open>procfs/mod.rs\<close>,
  \<open>lsm.rs\<close>) and fork. The child of \<open>exec\<close> enters the container (\<open>container_setup.rs\<close>,
  \<open>cgroup.rs\<close>, \<open>namespace.rs\<close>, \<open>capabilities.rs\<close>) and becomes the command (\<open>cmd.rs\<close>); the
  child of \<open>attach\<close> (\<open>attach/child.rs\<close>) assembles a private mount hierarchy with the
  container's trees, enters the container's other namespaces, reports over a socket
  (\<open>ipc.rs\<close>) and becomes the command. The parent (\<open>attach/parent.rs\<close>, \<open>pty.rs\<close>) copies the
  terminal's bytes, waits and exits with the child's status. \<open>attach/idmap_helper.rs\<close> keeps a
  third process whose user namespace carries the id map of \<open>--effective-user\<close> (\<open>passwd.rs\<close>).

  How it is modelled. A function of the program is a program of the monad of theory Sys: it
  takes a \<open>kernel\<close> (the environment: one field per kind of answer, each a function of the
  history, so that answers may change from call to call) and the history of the calls made so
  far, and gives an outcome (a value, an error, a panic, an exit with a status, the replacement
  of the process by a command, or no end) and the extended history. A Rust \<open>Result\<close> is the
  value or error outcome, \<open>?\<close> is \<open>bindP\<close> with \<open>map_errP\<close>, a scope with a destructor is
  \<open>finallyP\<close>, a \<open>loop\<close> is \<open>loopP\<close>, which is a partial function: a loop that does not end is
  the outcome \<open>Hangs\<close>. One history follows one process; a fork is a call that answers 0 to the
  child and the process id to the parent, so a statement over all kernels is one about both
  sides. Where one process waits for another, theory Rendezvous joins the two runs (below). Log output (\<open>warn!\<close>, \<open>debug!\<close>) is left out, \<open>eprintln!\<close> is a call. Integers of
  fixed width are words (\<open>u32\<close>, \<open>u64\<close>) with checked arithmetic as in the source, strings are
  lists of bytes, paths are strings with \<open>Path\<close>'s join, prefix and parent rules.

  The theories.
  \<^item> Prelude, Rust_Str, Sys, Prog_Logic, Sample: fact collections and checked arithmetic; the
    string, number, UTF-8 and path functions of Rust's library that the code uses; calls,
    kernels and the program monad; evaluation, inversion, the predicates \<open>emits\<close> (which events
    a program can add) and \<open>ends_in\<close> (how it can end) with one rule per combinator, and the
    rules for loops; a kernel for worked examples.
  \<^item> Paths, Lsm, Procfs, Cgroup, Namespace, Container_Setup (also \<open>capabilities.rs\<close>), Cmd, Ipc,
    Pty, Passwd, Syscalls, Container, Idmap_Helper, Exec, Cli (also \<open>bin/main.rs\<close>): the file of
    the same name under \<open>src/\<close>. Attach: the files \<open>mod.rs\<close>, \<open>child.rs\<close> and \<open>parent.rs\<close> of
    \<open>attach/\<close>. Errors: \<open>errors.rs\<close> and the messages of the error types.
  \<^item> Test_Utils: \<open>test_utils.rs\<close>, the harness of the tests: a wait with a time limit that
    escalates from \<open>SIGTERM\<close> to \<open>SIGKILL\<close>, and a closure run in a user namespace. The closure is
    a parameter, a program whose error is a panic with its payload.
  \<^item> Panic_Free: the parts of the program, one after the other, cannot panic. Host_Process: what
    the started process, as opposed to its children, does itself.
  \<^item> Rendezvous, Handshakes: two processes that share a pipe or a socket. A run is what the
    model of one process does on its kernel; \<open>child_step\<close> and \<open>parent_step\<close> interleave the events
    of two runs in every order that the channel allows, \<open>reach\<close> are the reachable joint states.
    Handshakes applies it to the two places where the program waits for another process: the
    pipe between \<open>IdmapHelper::new\<close> and the helper, and the socket between the two arms of the
    fork in \<open>attach\<close> (\<open>attach_parent_side\<close>, \<open>attach_child_side\<close>).
  A long function of the source is cut into definitions for its stretches (the child's \<open>run\<close> is
  \<open>child_prepare\<close>, \<open>child_mounts\<close>, \<open>child_enter\<close>, \<open>child_finish\<close>), a loop body is a definition
  of its own (\<open>shovel_step\<close>, \<open>wait_step\<close>, \<open>receive_step\<close>, \<open>lookup_step\<close>), and a loop over the
  lines of a file is a recursive function over the lines.

  The interfaces. \<open>cgroup_manager\<close> (the trait \<open>CgroupManager\<close>; interpreted for each of the four
  managers and the factory), \<open>namespace_opener\<close> (the loops of attach and of exec over the
  namespaces), \<open>error_type\<close> (what a report needs of an error type; interpreted for all),
  \<open>arg_parser\<close> (what the two argument loops have in common), \<open>handshake\<close> (the receiver closes its
  copy of the sending end first, the sender is prepared when it sends) and its extension
  \<open>rendezvous\<close> (the sender sends or ends), interpreted for the pipe and for the socket.

  What the lemmas show. Terminal copying loses, repeats and reorders nothing, keeps its
  offsets in bounds, and raw mode is undone on every way out; the exit status is the child's,
  through stops and interrupted waits; the steps of entering a container happen in one order
  only, credentials fail closed and exactly the capabilities that the container lacks are
  dropped; container trees are captured inside and attached outside; the id map that is written
  is the one that is read back, and the translation of ids refines a lookup in a list of
  ranges; environments, arguments and type lists round trip; a report names every cause; the
  lookup only reads and the cgroup move only writes process ids to the two kinds of files.
  In every interleaving the helper's namespace is opened only after both maps were written,
  the attach parent forwards or waits only after the child entered the container and gave up
  its privileges, and neither parent waits for ever: the other process alone can always run
  to a state in which the wait is answered. No assertion, slice or unreachable branch of the
  program is hit, whatever the arguments, and the process that the user started changes no
  file, mount, namespace or credential itself. The wait of the test harness ends, and kills only
  after the grace period. This theory joins the parts of the command line: a typed request
  has the outcome of the command it stands for.

  Bounds and fuel. Loops have no bound in the model; \<open>loop_fuel n\<close> is the loop cut after \<open>n\<close>
  rounds, it agrees with the unbounded loop whenever it gives a result, and the loop hangs
  exactly if no number of rounds is enough. The wait of the harness gets one round per polling
  interval of its time limit and of the grace period, and three more, which is shown to be
  enough when the clock does not go back. The buffer of the copying loop has the 8192 bytes
  of the source, the user lookup starts with 4096 bytes and doubles.

  Hypotheses on the environment. \<open>honest_io\<close>: a read gives and a write takes no more bytes than
  asked for. \<open>caps_known\<close>: the kernel's last capability is at most 63, the width of its masks.
  \<open>clock_ok\<close>: the clock is monotonic and a sleep lasts at least as long as asked. In the step
  relation, the documented rules of pipes and of \<open>SOCK_SEQPACKET\<close> pairs: a receive takes what was
  sent, and the end of the file comes when nothing is left and every sending end is closed;
  a process that ends closes its descriptors, and the socket is close-on-exec (the helper executes
  nothing).

  Not modelled. \<open>container_pid\<close>, the C library's user database and the kernel are fields of
  \<open>kernel\<close>; the programs under \<open>tests/\<close> run the built binary; closing a descriptor is a call
  only where the source drops it explicitly; the allocation of memory does not fail, and the
  panic of \<open>eprintln!\<close> on a closed standard error and the output of the panic hook are left out.
  Readiness results of \<open>poll\<close> are reduced to whether a descriptor has any event, which is all
  the source looks at. Apart from the two channels, each process is verified against every
  sequence of answers instead of against a shared kernel state; a run that loops for ever is
  represented by its events up to the loop.
\<close>

section \<open>From the command line to the outcome\<close>

definition attach_request :: "(string \<Rightarrow> nat option) \<Rightarrow> request \<Rightarrow> attach_options" where
  "attach_request known r = \<lparr>ao_command = fst (split_command (rq_command r)), ao_arguments = snd (split_command (rq_command r)),
     ao_container_name = rq_container r, ao_container_types = List.map_filter known (rq_types r),
     ao_effective_user = None, ao_apparmor_mode = rq_mode r\<rparr>"

definition exec_request :: "(string \<Rightarrow> nat option) \<Rightarrow> request \<Rightarrow> exec_options" where
  "exec_request known r = \<lparr>eo_command = fst (split_command (rq_command r)), eo_arguments = snd (split_command (rq_command r)),
     eo_container_name = rq_container r, eo_container_types = List.map_filter known (rq_types r),
     eo_apparmor_mode = rq_mode r\<rparr>"

text \<open>What \<open>main\<close> makes of the outcome of a command.\<close>

definition reported :: "kernel \<Rightarrow> ('e \<Rightarrow> string) \<Rightarrow> (unit, 'e) res \<times> hist \<Rightarrow> (unit, 'f) res \<times> hist" where
  "reported K msg r = (case r of
      (Ret u, h) \<Rightarrow> (Exit 0, h)
    | (Err e, h) \<Rightarrow> (Exit 1, h @ [(Eprint (msg e), k_call K h (Eprint (msg e)))])
    | (Panic, h) \<Rightarrow> (Panic, h) | (Exit n, h) \<Rightarrow> (Exit n, h) | (Execed, h) \<Rightarrow> (Execed, h) | (Hangs, h) \<Rightarrow> (Hangs, h))"

lemma render_utf8_args:
  assumes "list_all utf8_valid as" "env_var K ''CNTR_ALLOW_SETCAP'' \<noteq> Some ''1''"
  shows "run_with_args (p # as) K h = (if utf8_valid p then dispatch as K h
    else (Err (''argument contains invalid UTF-8: '' @ from_utf8_lossy p), h))"
  using assms by (simp add: run_with_args_def maybe_set_dumpable_def utf8_args_valid prog_simps)

lemma main_dispatch:
  assumes "list_all utf8_valid (p # as)" "env_var K ''CNTR_ALLOW_SETCAP'' \<noteq> Some ''1''"
    and "dispatch as K h = (case r of
      (Ret u, h) \<Rightarrow> (Ret SUCCESS, h) | (Err e, h) \<Rightarrow> (Err (msg e), h) | (Panic, h) \<Rightarrow> (Panic, h)
    | (Exit n, h) \<Rightarrow> (Exit n, h) | (Execed, h) \<Rightarrow> (Execed, h) | (Hangs, h) \<Rightarrow> (Hangs, h))"
  shows "(main (p # as) :: (unit, 'f) prog) K h = reported K msg r"
  using assms render_utf8_args [of as K p h]
  by (auto simp: main_def prog_simps reported_def exit_status_of_def split: prod.split res.split)

text \<open>C15: A typed request has the outcome of the command it stands for: \<open>cntr attach\<close> and
  \<open>cntr exec\<close> with the words of a request end as \<open>attach\<close> and \<open>exec\<close> end on its container,
  types, mode and command (the first word of the command is the program, the rest its
  arguments); when that is an error, the status is 1 and the message names the container and
  then every cause, joined by colons.\<close>

theorem request_outcome:
  assumes "request_ok (k_types K) r" "list_all utf8_valid (prog # render r)"
    and "env_var K ''CNTR_ALLOW_SETCAP'' \<noteq> Some ''1''"
  shows "(main (prog # ''attach'' # render r) :: (unit, 'f) prog) K h =
      reported K (\<lambda>e. ''failed to attach to container '' @ quoted (rq_container r) @ '': '' @ join_with '': '' (attach_chain K e))
        (attach (attach_request (k_types K) r) K h) \<and>
    (main (prog # ''exec'' # render r) :: (unit, 'f) prog) K h =
      reported K (\<lambda>e. ''failed to exec into container '' @ quoted (rq_container r) @ '': '' @ join_with '': '' (exec_chain K e))
        (exec (exec_request (k_types K) r) K h)"
proof -
  have words: "utf8_valid ''attach''" "utf8_valid ''exec''" by code_simp+
  have a: "dispatch (''attach'' # render r) K h = (case attach (attach_request (k_types K) r) K h of
      (Ret u, h) \<Rightarrow> (Ret SUCCESS, h)
    | (Err e, h) \<Rightarrow> (Err (''failed to attach to container '' @ quoted (rq_container r) @ '': '' @ join_with '': '' (attach_chain K e)), h)
    | (Panic, h) \<Rightarrow> (Panic, h) | (Exit n, h) \<Rightarrow> (Exit n, h) | (Execed, h) \<Rightarrow> (Execed, h) | (Hangs, h) \<Rightarrow> (Hangs, h))"
    using attach_parser.parse_render [OF assms(1)]
    by (simp add: dispatch_def parse_attach_args_def prog_simps parsed_def attach_request_def case_prod_beta
        attach_err.report_join split: prod.split res.split)
  have e: "dispatch (''exec'' # render r) K h = (case exec (exec_request (k_types K) r) K h of
      (Ret u, h) \<Rightarrow> (Ret SUCCESS, h)
    | (Err e, h) \<Rightarrow> (Err (''failed to exec into container '' @ quoted (rq_container r) @ '': '' @ join_with '': '' (exec_chain K e)), h)
    | (Panic, h) \<Rightarrow> (Panic, h) | (Exit n, h) \<Rightarrow> (Exit n, h) | (Execed, h) \<Rightarrow> (Execed, h) | (Hangs, h) \<Rightarrow> (Hangs, h))"
    using exec_parser.parse_render [OF assms(1)]
    by (simp add: dispatch_def parse_exec_args_def prog_simps parsed_def exec_request_def case_prod_beta
        exec_err.report_join split: prod.split res.split)
  show ?thesis using assms(2,3) words by (simp add: main_dispatch [OF _ _ a] main_dispatch [OF _ _ e])
qed


definition sample_old_kernel :: kernel where
  "sample_old_kernel = sample\<lparr>k_call := (\<lambda>h c. case c of Fsopen _ \<Rightarrow> Inl ENOSYS | _ \<Rightarrow> sample_call h c)\<rparr>"

theorem request_outcome_witness:
  "\<exists>h' q. (main [''cntr'', ''attach'', ''--apparmor'', ''auto'', ''web''] :: (unit, unit) prog) sample_old_kernel [] =
    (Exit 1, h' @ [(Eprint (''failed to attach to container '' @ quoted ''web'' @ '': '' @ mount_api_message), q)])"
proof -
  let ?r = "\<lparr>rq_mode = Auto, rq_types = [], rq_container = ''web'', rq_command = []\<rparr>"
  have ok: "request_ok (k_types sample_old_kernel) ?r" by (simp add: request_ok_def is_dashed_def)
  have utf8: "list_all utf8_valid (''cntr'' # render ?r)" by code_simp
  have env: "env_var sample_old_kernel ''CNTR_ALLOW_SETCAP'' \<noteq> Some ''1''"
    by (simp add: env_var_def sample_old_kernel_def sample_def)
  have old: "\<exists>h'. attach opts sample_old_kernel [] = (Err Attach_MountApiUnavailable, h')" for opts
    by (simp add: attach_def has_mount_api_def prog_simps sample_old_kernel_def)
  have "render ?r = [''--apparmor'', ''auto'', ''web'']" by (simp add: render_def mode_word_def)
  with request_outcome [OF ok utf8 env, of "[]", where 'f = unit] old [of "attach_request (k_types sample_old_kernel) ?r"]
  show ?thesis by (auto simp: reported_def attach_chain_def)
qed

end
